theory Spec2Isabelle
  imports Main "HOL-Library.Word"
begin

section \<open>Configuration\<close>

text \<open>The entries of \<^verbatim>\<open>CONFIG\<close> that the control logic reads. Durations are
  seconds; \<open>SIMILARITY_THRESHOLD\<close> (a float, read only by \<^verbatim>\<open>is_similar\<close>, which
  nothing calls) and the API and store settings are left out.\<close>

definition MAX_RETRIES :: nat where "MAX_RETRIES = 3"
definition RETRY_DELAY :: nat where "RETRY_DELAY = 5"
definition TIME_THRESHOLD :: int where "TIME_THRESHOLD = 1"
definition IMAGES_TO_PROCESS :: nat where "IMAGES_TO_PROCESS = 50"
definition REFRESH_INTERVAL :: nat where "REFRESH_INTERVAL = 1"
definition PROCESS_THRESHOLD :: nat where "PROCESS_THRESHOLD = 100"
definition PAUSE_DURATION :: nat where "PAUSE_DURATION = 120"
definition MAX_DRIVER_RETRIES :: nat where "MAX_DRIVER_RETRIES = 3"

section \<open>Python values\<close>

text \<open>A Python \<^verbatim>\<open>str\<close> is a list of code points, a \<^verbatim>\<open>bytes\<close> object a list of
  octets. \<open>pyval\<close> holds the values a field of a formatted record can take after
  \<^verbatim>\<open>convert_numeric_fields\<close>; a float is kept as its IEEE-754 bit pattern.\<close>

type_synonym pystr = "nat list"
type_synonym byte = "8 word"

datatype pyval = PNone | PStr pystr | PInt int | PFloat "64 word"

datatype exn =
  TimeoutException | WebDriverException | ValueError | RequestError | OtherException

text \<open>In selenium every exception class derives from \<^verbatim>\<open>WebDriverException\<close>,
  \<^verbatim>\<open>TimeoutException\<close> included.\<close>

fun isinstance_TimeoutException :: "exn \<Rightarrow> bool" where
  "isinstance_TimeoutException TimeoutException = True"
| "isinstance_TimeoutException _ = False"

fun isinstance_WebDriverException :: "exn \<Rightarrow> bool" where
  "isinstance_WebDriverException TimeoutException = True"
| "isinstance_WebDriverException WebDriverException = True"
| "isinstance_WebDriverException _ = False"

text \<open>Built-ins whose exact behaviour lies outside the repository are parameters:
  \<^verbatim>\<open>str.isdigit\<close>, \<^verbatim>\<open>int(s)\<close> and \<^verbatim>\<open>float(s)\<close> (\<open>None\<close> when they raise
  \<^verbatim>\<open>ValueError\<close>), and \<^verbatim>\<open>datetime.fromisoformat(s).isoformat()\<close>.\<close>

record pylib =
  str_isdigit :: "pystr \<Rightarrow> bool"
  int_of_str :: "pystr \<Rightarrow> int option"
  float_of_str :: "pystr \<Rightarrow> 64 word option"
  isoformat_of :: "pystr \<Rightarrow> pystr option"

section \<open>Decoding the embedded comment\<close>

datatype encoding = UTF_16_BE | UTF_8 | ASCII

text \<open>\<^verbatim>\<open>b'UNICODE'\<close>, the seven bytes \<^verbatim>\<open>startswith\<close> tests for.\<close>

definition unicode_marker :: "byte list" where
  "unicode_marker = [0x55, 0x4E, 0x49, 0x43, 0x4F, 0x44, 0x45]"

definition startswith :: "'a list \<Rightarrow> 'a list \<Rightarrow> bool" where
  "startswith v p = (take (length p) v = p)"

text \<open>Strict UTF-16-BE: big-endian code units, surrogate pairs combined, an odd
  length or an unpaired surrogate is a \<^verbatim>\<open>UnicodeDecodeError\<close> (\<open>None\<close>).\<close>

fun utf16be_units :: "nat list \<Rightarrow> nat list option" where
  "utf16be_units [] = Some []"
| "utf16be_units [h] = None"
| "utf16be_units (h # l # bs) = map_option (Cons (256 * h + l)) (utf16be_units bs)"

fun utf16_scalars :: "nat list \<Rightarrow> pystr option" where
  "utf16_scalars [] = Some []"
| "utf16_scalars [u] = (if 0xD800 \<le> u \<and> u < 0xE000 then None else Some [u])"
| "utf16_scalars (u # v # us) =
     (if 0xD800 \<le> u \<and> u < 0xDC00 then
        (if 0xDC00 \<le> v \<and> v < 0xE000
         then map_option (Cons (0x10000 + (u - 0xD800) * 0x400 + (v - 0xDC00))) (utf16_scalars us)
         else None)
      else if 0xDC00 \<le> u \<and> u < 0xE000 then None
      else map_option (Cons u) (utf16_scalars (v # us)))"

text \<open>Strict UTF-8: shortest form only, no surrogates, nothing above U+10FFFF.\<close>

definition is_cont :: "nat \<Rightarrow> bool" where
  "is_cont c = (128 \<le> c \<and> c < 192)"

fun utf8_scalars :: "nat list \<Rightarrow> pystr option" where
  "utf8_scalars [] = Some []"
| "utf8_scalars (a # bs) =
     (if a < 128 then map_option (Cons a) (utf8_scalars bs)
      else if 194 \<le> a \<and> a < 224 then
        (case bs of
           b # r \<Rightarrow>
             if is_cont b
             then map_option (Cons ((a - 192) * 64 + (b - 128))) (utf8_scalars r)
             else None
         | _ \<Rightarrow> None)
      else if 224 \<le> a \<and> a < 240 then
        (case bs of
           b # c # r \<Rightarrow>
             if is_cont b \<and> is_cont c \<and> (if a = 224 then 160 \<le> b else True)
                \<and> (if a = 237 then b < 160 else True)
             then map_option (Cons ((a - 224) * 4096 + (b - 128) * 64 + (c - 128)))
                    (utf8_scalars r)
             else None
         | _ \<Rightarrow> None)
      else if 240 \<le> a \<and> a < 245 then
        (case bs of
           b # c # d # r \<Rightarrow>
             if is_cont b \<and> is_cont c \<and> is_cont d \<and> (if a = 240 then 144 \<le> b else True)
                \<and> (if a = 244 then b < 144 else True)
             then map_option
                    (Cons ((a - 240) * 262144 + (b - 128) * 4096 + (c - 128) * 64 + (d - 128)))
                    (utf8_scalars r)
             else None
         | _ \<Rightarrow> None)
      else None)"

fun bytes_decode :: "encoding \<Rightarrow> byte list \<Rightarrow> pystr option" where
  "bytes_decode UTF_16_BE b = Option.bind (utf16be_units (map unat b)) utf16_scalars"
| "bytes_decode UTF_8 b = utf8_scalars (map unat b)"
| "bytes_decode ASCII b =
     (if list_all (\<lambda>c. c < 128) (map unat b) then Some (map unat b) else None)"

text \<open>\<^verbatim>\<open>s.replace('\x00', '')\<close>.\<close>

definition replace_nul :: "pystr \<Rightarrow> pystr" where
  "replace_nul s = filter (\<lambda>c. c \<noteq> 0) s"

text \<open>\<^verbatim>\<open>str(b)\<close> of a bytes object is its repr: \<^verbatim>\<open>b'...'\<close> with escapes, in double
  quotes when the bytes hold a single quote and no double quote.\<close>

definition hexdigit :: "nat \<Rightarrow> nat" where
  "hexdigit d = (if d < 10 then 48 + d else 87 + d)"

definition repr_byte :: "nat \<Rightarrow> nat \<Rightarrow> pystr" where
  "repr_byte quote c =
     (if c = quote \<or> c = 92 then [92, c]
      else if c = 9 then [92, 116]
      else if c = 10 then [92, 110]
      else if c = 13 then [92, 114]
      else if c < 32 \<or> 127 \<le> c then [92, 120, hexdigit (c div 16), hexdigit (c mod 16)]
      else [c])"

definition bytes_repr :: "byte list \<Rightarrow> pystr" where
  "bytes_repr b =
     (let cs = map unat b;
          quote = (if 39 \<in> set cs \<and> 34 \<notin> set cs then 34 else 39)
      in [98, quote] @ concat (map (repr_byte quote) cs) @ [quote])"

text \<open>The raw value PIL hands over: bytes, a string, or a value of another type,
  given by its \<^verbatim>\<open>str()\<close>.\<close>

datatype exif_value = ExifBytes "byte list" | ExifStr pystr | ExifOther pystr

fun py_str :: "exif_value \<Rightarrow> pystr" where
  "py_str (ExifBytes b) = bytes_repr b"
| "py_str (ExifStr s) = s"
| "py_str (ExifOther s) = s"

text \<open>The \<^verbatim>\<open>for encoding in [...]\<close> loop: the first decoding that does not raise
  \<^verbatim>\<open>UnicodeDecodeError\<close> is returned, nulls removed.\<close>

fun try_decodings :: "encoding list \<Rightarrow> byte list \<Rightarrow> pystr option" where
  "try_decodings [] v = None"
| "try_decodings (e # es) v =
     (case bytes_decode e v of
        Some s \<Rightarrow> Some (replace_nul s)
      | None \<Rightarrow> try_decodings es v)"

fun decode_user_comment :: "exif_value \<Rightarrow> pystr" where
  "decode_user_comment (ExifBytes b) =
     (let v = (if startswith b unicode_marker then drop 8 b else b) in
      case try_decodings [UTF_16_BE, UTF_8, ASCII] v of
        Some s \<Rightarrow> s
      | None \<Rightarrow> py_str (ExifBytes v))"
| "decode_user_comment x = py_str x"

text \<open>The decoding policy as the specification words it, for comparison with
  \<open>decode_user_comment\<close>: a value that begins with the marker loses the marker, the
  three decodings are tried in order, and on total failure the raw value is coerced.
  The marker is a parameter, since the text does not spell out its bytes.\<close>

definition decode_user_comment_spec :: "byte list \<Rightarrow> exif_value \<Rightarrow> pystr" where
  "decode_user_comment_spec marker x =
     (case x of
        ExifBytes b \<Rightarrow>
          (let v = (if startswith b marker then drop (length marker) b else b) in
           case try_decodings [UTF_16_BE, UTF_8, ASCII] v of
             Some s \<Rightarrow> s
           | None \<Rightarrow> py_str x)
      | _ \<Rightarrow> py_str x)"

section \<open>Session state and effects\<close>

text \<open>Calls to the collaborators are recorded, in order, in a ghost field of the
  state: \<open>ApiGet\<close> is the listing request of \<^verbatim>\<open>fetch_images\<close>, \<open>HttpGet\<close> the
  download that opens \<^verbatim>\<open>process_image\<close>, \<open>DriverGet\<close> the navigation that opens an
  extraction attempt, \<open>DriverLaunch\<close> one call of \<^verbatim>\<open>webdriver.Firefox\<close>, \<open>Sleep n\<close> a
  \<^verbatim>\<open>time.sleep\<close> of a configured number of seconds and \<open>SleepRemainder\<close> the sleep
  that ends a cycle. Logging is not recorded.\<close>

datatype effect =
  Sleep nat | SleepRemainder | ApiGet nat | HttpGet int | DriverGet int
  | DriverQuit | DriverLaunch | DbQuery | DbInsert

text \<open>A listing item, as \<^verbatim>\<open>fetch_images\<close> returns it.\<close>

record image =
  img_id :: int
  img_url :: pystr
  img_hash :: pystr
  img_createdAt :: "pystr option"
  img_postId :: int
  img_username :: pystr

text \<open>The dictionary \<^verbatim>\<open>format_image_data\<close> builds.\<close>

record image_data =
  d_id :: int
  d_url :: pyval
  d_hash :: pyval
  d_createdAt :: pyval
  d_postId :: int
  d_username :: pyval
  d_web_url :: pyval
  d_tags :: "pystr list"
  d_user_comment :: pyval

text \<open>The fields of \<^verbatim>\<open>ImageProcessor\<close>. Timestamps are microseconds. The HTTP
  session, the driver handle and the store connection are collaborators: what they
  answer is part of the environment below.\<close>

record processor =
  processed_count :: nat
  skipped_count :: nat
  previous_images :: "image_data list"
  existing_entries_set :: "(pystr list \<times> pyval) set"
  processed_ids :: "int set"
  recent_users :: "pyval \<rightharpoonup> int"
  consecutive_duplicate_count :: nat
  effects :: "effect list"

definition emit :: "effect \<Rightarrow> processor \<Rightarrow> processor" where
  "emit e s = s\<lparr>effects := effects s @ [e]\<rparr>"

text \<open>\<^verbatim>\<open>__init__\<close>.\<close>

definition init :: processor where
  "init = \<lparr>processed_count = 0, skipped_count = 0, previous_images = [],
           existing_entries_set = {}, processed_ids = {}, recent_users = Map.empty,
           consecutive_duplicate_count = 0, effects = []\<rparr>"

section \<open>The environment of one item\<close>

text \<open>One extraction attempt either loads the page, giving the \<^verbatim>\<open>.text\<close> of every
  element the selector finds, or raises; \<open>AttemptRaises e k\<close> also says that the next
  \<open>k\<close> calls of \<^verbatim>\<open>webdriver.Firefox\<close> raise \<^verbatim>\<open>WebDriverException\<close> before one
  succeeds.\<close>

datatype attempt = PageLoaded "pystr list" | AttemptRaises exn nat

text \<open>The download either fails (request error, bad status, file error) or gives
  the content, of which only the \<^verbatim>\<open>UserComment\<close> value matters: \<open>None\<close> when the
  content has no EXIF data or no such tag, or when reading it raises.\<close>

datatype download = DownloadFails | Downloaded "exif_value option"

text \<open>What the collaborators answer while one item is handled: the download, the
  outcome of extraction attempt \<open>n\<close> (\<open>n\<close> failed attempts came before it), the count
  the duplicate query returns (\<open>None\<close> when the query raises), whether the insert
  goes through, and the two readings of \<^verbatim>\<open>datetime.now()\<close>, at the recency test and
  after the insert.\<close>

record item_env =
  download :: download
  render :: "nat \<Rightarrow> attempt"
  duplicate_query :: "nat option"
  insert_ok :: bool
  now_check :: int
  now_insert :: int

section \<open>Tag extraction\<close>

text \<open>\<^verbatim>\<open>initialize_driver\<close>, started with \<open>retries\<close> failures behind it; \<open>failures\<close> is
  the number of launches that raise before one succeeds.\<close>

function initialize_driver_from :: "nat \<Rightarrow> nat \<Rightarrow> processor \<Rightarrow> (exn + unit) \<times> processor" where
  "initialize_driver_from retries failures s =
     (if retries < MAX_DRIVER_RETRIES then
        (if retries < failures
         then initialize_driver_from (retries + 1) failures
                (emit (Sleep RETRY_DELAY) (emit DriverLaunch s))
         else (Inr (), emit DriverLaunch s))
      else (Inl WebDriverException, s))"
  by pat_completeness auto
termination
  by (relation "measure (\<lambda>(retries, failures, s). MAX_DRIVER_RETRIES - retries)") auto

declare initialize_driver_from.simps [simp del]

definition initialize_driver :: "nat \<Rightarrow> processor \<Rightarrow> (exn + unit) \<times> processor" where
  "initialize_driver failures s = initialize_driver_from 0 failures s"

text \<open>\<^verbatim>\<open>str.strip()\<close> removes the characters for which \<^verbatim>\<open>str.isspace\<close> holds.\<close>

definition is_space :: "nat \<Rightarrow> bool" where
  "is_space c =
     ((9 \<le> c \<and> c \<le> 13) \<or> (28 \<le> c \<and> c \<le> 32) \<or> c = 0x85 \<or> c = 0xA0 \<or> c = 0x1680
      \<or> (0x2000 \<le> c \<and> c \<le> 0x200A) \<or> c = 0x2028 \<or> c = 0x2029 \<or> c = 0x202F
      \<or> c = 0x205F \<or> c = 0x3000)"

definition strip :: "pystr \<Rightarrow> pystr" where
  "strip t = rev (dropWhile is_space (rev (dropWhile is_space t)))"

text \<open>\<^verbatim>\<open>[tag.text.strip() for tag in ... if tag.text.strip()]\<close>.\<close>

definition collect_tags :: "pystr list \<Rightarrow> pystr list" where
  "collect_tags texts = filter (\<lambda>t. t \<noteq> []) (map strip texts)"

text \<open>\<^verbatim>\<open>extract_image_details\<close>, started with \<open>retries\<close> failed attempts behind it.
  The \<^verbatim>\<open>except\<close> clause names \<^verbatim>\<open>TimeoutException\<close> and \<^verbatim>\<open>WebDriverException\<close>; any
  other exception, the \<^verbatim>\<open>ValueError\<close> of the empty page included, leaves the function,
  and so does one that \<^verbatim>\<open>initialize_driver\<close> raises inside the handler.\<close>

function extract_image_details_from ::
  "nat \<Rightarrow> image \<Rightarrow> (nat \<Rightarrow> attempt) \<Rightarrow> processor \<Rightarrow> (exn + pystr list) \<times> processor" where
  "extract_image_details_from retries img outcome s =
     (if retries < MAX_RETRIES then
        (let s1 = emit (DriverGet (img_id img)) s in
         case outcome retries of
           PageLoaded texts \<Rightarrow>
             (let tags = collect_tags texts in
              if tags \<noteq> [] then (Inr tags, s1) else (Inl ValueError, s1))
         | AttemptRaises e failures \<Rightarrow>
             if isinstance_TimeoutException e \<or> isinstance_WebDriverException e then
               (case (if isinstance_WebDriverException e
                      then initialize_driver failures (emit DriverQuit s1)
                      else (Inr (), s1)) of
                  (Inl e', s2) \<Rightarrow> (Inl e', s2)
                | (Inr u, s2) \<Rightarrow>
                    extract_image_details_from (retries + 1) img outcome
                      (emit (Sleep RETRY_DELAY) s2))
             else (Inl e, s1))
      else (Inr [], s))"
  by pat_completeness auto
termination
  by (relation "measure (\<lambda>(retries, img, outcome, s). MAX_RETRIES - retries)") auto

declare extract_image_details_from.simps [simp del]

definition extract_image_details ::
  "image \<Rightarrow> (nat \<Rightarrow> attempt) \<Rightarrow> processor \<Rightarrow> (exn + pystr list) \<times> processor" where
  "extract_image_details img outcome s = extract_image_details_from 0 img outcome s"

section \<open>Formatting a record\<close>

text \<open>\<^verbatim>\<open>str(n)\<close> of an integer, for the derived \<^verbatim>\<open>web_url\<close>.\<close>

fun digits_of :: "nat \<Rightarrow> pystr" where
  "digits_of n = (if n < 10 then [48 + n] else digits_of (n div 10) @ [48 + n mod 10])"

declare digits_of.simps [simp del]

definition str_int :: "int \<Rightarrow> pystr" where
  "str_int i = (if i < 0 then 45 # digits_of (nat (- i)) else digits_of (nat i))"

text \<open>\<^verbatim>\<open>f"website/{image['id']}"\<close>, which \<^verbatim>\<open>fetch_images\<close> attaches to every item.\<close>

definition web_url :: "image \<Rightarrow> pystr" where
  "web_url img = [119, 101, 98, 115, 105, 116, 101, 47] @ str_int (img_id img)"

text \<open>\<^verbatim>\<open>standardize_date\<close>: every \<^verbatim>\<open>Z\<close> becomes \<^verbatim>\<open>+00:00\<close>; an absent or empty
  date, or one that does not parse, gives \<^verbatim>\<open>None\<close>.\<close>

definition replace_Z :: "pystr \<Rightarrow> pystr" where
  "replace_Z s = concat (map (\<lambda>c. if c = 90 then [43, 48, 48, 58, 48, 48] else [c]) s)"

definition standardize_date :: "pylib \<Rightarrow> pystr option \<Rightarrow> pyval" where
  "standardize_date py date_str =
     (case date_str of
        None \<Rightarrow> PNone
      | Some s \<Rightarrow>
          if s = [] then PNone
          else (case isoformat_of py (replace_Z s) of
                  Some formatted \<Rightarrow> PStr formatted
                | None \<Rightarrow> PNone))"

text \<open>One value of the dictionary under \<^verbatim>\<open>convert_numeric_fields\<close>: a string of
  digits becomes an integer (\<^verbatim>\<open>int\<close> may raise), any other string a float when
  \<^verbatim>\<open>float\<close> accepts it; values that are not strings are left alone. The dictionary
  holds no nested dictionary.\<close>

fun convert_numeric :: "pylib \<Rightarrow> pyval \<Rightarrow> exn + pyval" where
  "convert_numeric py (PStr v) =
     (if str_isdigit py v then
        (case int_of_str py v of Some n \<Rightarrow> Inr (PInt n) | None \<Rightarrow> Inl ValueError)
      else (case float_of_str py v of Some f \<Rightarrow> Inr (PFloat f) | None \<Rightarrow> Inr (PStr v)))"
| "convert_numeric py v = Inr v"

definition and_then :: "exn + 'a \<Rightarrow> ('a \<Rightarrow> exn + 'b) \<Rightarrow> exn + 'b" where
  "and_then r k = (case r of Inl e \<Rightarrow> Inl e | Inr v \<Rightarrow> k v)"

text \<open>\<^verbatim>\<open>format_image_data\<close>; the fields are converted in the dictionary's order.\<close>

definition format_image_data ::
  "pylib \<Rightarrow> image \<Rightarrow> pystr list \<Rightarrow> pystr \<Rightarrow> exn + image_data" where
  "format_image_data py img tags user_comment =
     and_then (convert_numeric py (PStr (img_url img))) (\<lambda>url.
     and_then (convert_numeric py (PStr (img_hash img))) (\<lambda>hash.
     and_then (convert_numeric py (standardize_date py (img_createdAt img))) (\<lambda>created.
     and_then (convert_numeric py (PStr (img_username img))) (\<lambda>username.
     and_then (convert_numeric py (PStr (web_url img))) (\<lambda>web.
     and_then (convert_numeric py (PStr user_comment)) (\<lambda>comment.
       Inr \<lparr>d_id = img_id img, d_url = url, d_hash = hash, d_createdAt = created,
            d_postId = img_postId img, d_username = username, d_web_url = web,
            d_tags = tags, d_user_comment = comment\<rparr>))))))"

section \<open>Processing one item\<close>

definition extract_exif_user_comment :: "exif_value option \<Rightarrow> pystr option" where
  "extract_exif_user_comment exif = map_option decode_user_comment exif"

text \<open>\<^verbatim>\<open>process_image\<close>: every exception is caught at this boundary and gives
  \<^verbatim>\<open>None\<close>, as the missing comment and the empty tag list do.\<close>

definition process_image ::
  "pylib \<Rightarrow> image \<Rightarrow> item_env \<Rightarrow> processor \<Rightarrow> image_data option \<times> processor" where
  "process_image py img env s =
     (let s1 = emit (HttpGet (img_id img)) s in
      case download env of
        DownloadFails \<Rightarrow> (None, s1)
      | Downloaded exif \<Rightarrow>
          (case extract_exif_user_comment exif of
             None \<Rightarrow> (None, s1)
           | Some user_comment \<Rightarrow>
               if user_comment = [] then (None, s1)
               else (case extract_image_details img (render env) s1 of
                       (Inl e, s2) \<Rightarrow> (None, s2)
                     | (Inr tags, s2) \<Rightarrow>
                         if tags = [] then (None, s2)
                         else (case format_image_data py img tags user_comment of
                                 Inl e \<Rightarrow> (None, s2)
                               | Inr formatted_data \<Rightarrow> (Some formatted_data, s2)))))"

section \<open>Deduplication and the store\<close>

text \<open>\<^verbatim>\<open>is_duplicate\<close>: the count the store answers, or \<open>None\<close> when the query
  raises, which is logged and read as no duplicate.\<close>

definition is_duplicate :: "item_env \<Rightarrow> bool" where
  "is_duplicate env = (case duplicate_query env of None \<Rightarrow> False | Some n \<Rightarrow> 0 < n)"

text \<open>Membership in a Python set goes by \<^verbatim>\<open>==\<close>, which on the values a comment
  can take is equality within one type, except that an integer and a float are equal
  when they denote the same number, that the two zeros of the floats are equal, and
  that a NaN equals nothing (two calls of \<^verbatim>\<open>float\<close> never give the same object). A
  double is read from its bit pattern: sign, eleven bits of exponent, fifty-two of
  fraction.\<close>

definition float_exponent :: "64 word \<Rightarrow> nat" where
  "float_exponent f = (unat f div 2 ^ 52) mod 2048"

definition float_fraction :: "64 word \<Rightarrow> nat" where
  "float_fraction f = unat f mod 2 ^ 52"

definition float_negative :: "64 word \<Rightarrow> bool" where
  "float_negative f = (2 ^ 63 \<le> unat f)"

definition float_is_nan :: "64 word \<Rightarrow> bool" where
  "float_is_nan f = (float_exponent f = 2047 \<and> float_fraction f \<noteq> 0)"

text \<open>The integer a float denotes, when it is finite and denotes one: the value is
  the significand times \<open>2 ^ (k - 1075)\<close>, where \<open>k\<close> is the exponent field, or 1 for
  a subnormal.\<close>

definition float_int_value :: "64 word \<Rightarrow> int option" where
  "float_int_value f =
     (let e = float_exponent f;
          m = (if e = 0 then float_fraction f else 2 ^ 52 + float_fraction f);
          k = (if e = 0 then 1 else e);
          sgn = (if float_negative f then - 1 else 1)
      in if e = 2047 then None
         else if 1075 \<le> k then Some (sgn * int (m * 2 ^ (k - 1075)))
         else if m mod 2 ^ (1075 - k) = 0 then Some (sgn * int (m div 2 ^ (1075 - k)))
         else None)"

definition float_eq :: "64 word \<Rightarrow> 64 word \<Rightarrow> bool" where
  "float_eq f g =
     (\<not> float_is_nan f \<and> \<not> float_is_nan g
      \<and> (f = g \<or> (unat f mod 2 ^ 63 = 0 \<and> unat g mod 2 ^ 63 = 0)))"

fun py_eq :: "pyval \<Rightarrow> pyval \<Rightarrow> bool" where
  "py_eq PNone PNone = True"
| "py_eq (PStr a) (PStr b) = (a = b)"
| "py_eq (PInt a) (PInt b) = (a = b)"
| "py_eq (PInt a) (PFloat g) = (float_int_value g = Some a)"
| "py_eq (PFloat f) (PInt b) = (float_int_value f = Some b)"
| "py_eq (PFloat f) (PFloat g) = float_eq f g"
| "py_eq _ _ = False"

text \<open>\<^verbatim>\<open>is_similar_entry\<close>: the pair of the tags, as a tuple, and the comment is a
  member of the set. The tags are strings, compared as they are.\<close>

definition is_similar_entry :: "image_data \<Rightarrow> processor \<Rightarrow> bool" where
  "is_similar_entry new_data s =
     (\<exists>entry \<in> existing_entries_set s.
        fst entry = d_tags new_data \<and> py_eq (snd entry) (d_user_comment new_data))"

text \<open>\<^verbatim>\<open>insert_into_db\<close> returns nothing either way; when the insert raises, the
  exception is logged and the in-memory set is not extended.\<close>

definition insert_into_db :: "image_data \<Rightarrow> item_env \<Rightarrow> processor \<Rightarrow> processor" where
  "insert_into_db d env s =
     (let s1 = emit DbInsert s in
      if insert_ok env
      then s1\<lparr>existing_entries_set := insert (d_tags d, d_user_comment d) (existing_entries_set s1)\<rparr>
      else s1)"

section \<open>The ingestion loop\<close>

text \<open>Which branch of the loop body an item takes, and how the body ends: \<open>Next\<close>
  goes on with the next item, \<open>Break\<close> leaves the \<^verbatim>\<open>for\<close> loop, \<open>Return\<close> leaves
  \<^verbatim>\<open>process_images\<close>.\<close>

datatype decision =
  SkipRecent | SkipProcessed | NoCandidate | SkipDuplicate | SkipSimilar | Inserted

datatype control = Next | Break | Return

text \<open>The recency test: the username of the listing item is a key of
  \<^verbatim>\<open>recent_users\<close> and the stamp is less than \<^verbatim>\<open>TIME_THRESHOLD\<close> seconds old. The key
  looked up is the string the listing gave.\<close>

definition recent_post :: "image \<Rightarrow> item_env \<Rightarrow> processor \<Rightarrow> bool" where
  "recent_post img env s =
     (case recent_users s (PStr (img_username img)) of
        None \<Rightarrow> False
      | Some t \<Rightarrow> now_check env - t < TIME_THRESHOLD * 1000000)"

text \<open>The five statements that follow \<^verbatim>\<open>insert_into_db\<close>; the stamp is stored under
  the username of the formatted record. Then the two statements of a duplicate skip,
  and the \<^verbatim>\<open>pop(0)\<close> that closes the branch.\<close>

definition record_insert :: "image_data \<Rightarrow> item_env \<Rightarrow> processor \<Rightarrow> processor" where
  "record_insert d env s =
     s\<lparr>recent_users := (recent_users s)(d_username d \<mapsto> now_insert env),
       previous_images := previous_images s @ [d],
       processed_ids := insert (d_id d) (processed_ids s),
       processed_count := processed_count s + 1,
       consecutive_duplicate_count := 0\<rparr>"

definition count_duplicate :: "processor \<Rightarrow> processor" where
  "count_duplicate s =
     s\<lparr>skipped_count := skipped_count s + 1,
       consecutive_duplicate_count := consecutive_duplicate_count s + 1\<rparr>"

definition trim_history :: "processor \<Rightarrow> processor" where
  "trim_history s =
     (if IMAGES_TO_PROCESS < length (previous_images s)
      then s\<lparr>previous_images := tl (previous_images s)\<rparr>
      else s)"

text \<open>The body of \<^verbatim>\<open>if processed_image:\<close>.\<close>

definition handle_candidate :: "image_data \<Rightarrow> item_env \<Rightarrow> processor \<Rightarrow> decision \<times> processor" where
  "handle_candidate d env s =
     (let s1 = emit DbQuery s;
          (dec, s2) =
            (if is_duplicate env then (SkipDuplicate, count_duplicate s1)
             else if is_similar_entry d s1 then (SkipSimilar, count_duplicate s1)
             else (Inserted, record_insert d env (insert_into_db d env s1)))
      in (dec, trim_history s2))"

text \<open>The two checks that close the loop body.\<close>

definition check_limits :: "processor \<Rightarrow> control \<times> processor" where
  "check_limits s =
     (if PROCESS_THRESHOLD \<le> processed_count s
      then (Break, (emit (Sleep PAUSE_DURATION) s)\<lparr>processed_count := 0, skipped_count := 0\<rparr>)
      else if 10 \<le> consecutive_duplicate_count s then (Return, s)
      else (Next, s))"

text \<open>One pass through the body of \<^verbatim>\<open>for image in images\<close>.\<close>

definition item_step ::
  "pylib \<Rightarrow> image \<times> item_env \<Rightarrow> processor \<Rightarrow> decision \<times> control \<times> processor" where
  "item_step py x s =
     (let img = fst x; env = snd x in
      if recent_post img env s then (SkipRecent, Next, s\<lparr>skipped_count := skipped_count s + 1\<rparr>)
      else if img_id img \<in> processed_ids s
      then (SkipProcessed, Next, s\<lparr>skipped_count := skipped_count s + 1\<rparr>)
      else
        (let (processed_image, s1) = process_image py img env s;
             (dec, s2) =
               (case processed_image of
                  None \<Rightarrow> (NoCandidate, s1)
                | Some d \<Rightarrow> handle_candidate d env s1);
             (ctl, s3) = check_limits s2
         in (dec, ctl, s3)))"

fun for_images :: "pylib \<Rightarrow> (image \<times> item_env) list \<Rightarrow> processor \<Rightarrow> control \<times> processor" where
  "for_images py [] s = (Next, s)"
| "for_images py (x # xs) s =
     (case item_step py x s of
        (dec, Next, s') \<Rightarrow> for_images py xs s'
      | (dec, ctl, s') \<Rightarrow> (ctl, s'))"

text \<open>What the listing API answers to one request; \<^verbatim>\<open>fetch_images\<close> turns a
  failed request into the empty list.\<close>

datatype response = RequestFails | Items "(image \<times> item_env) list"

fun fetch_images :: "response \<Rightarrow> (image \<times> item_env) list" where
  "fetch_images RequestFails = []"
| "fetch_images (Items xs) = xs"

text \<open>\<^verbatim>\<open>process_images\<close> runs until it returns; the list of responses is the part of
  the environment seen so far, and \<open>Running page s\<close> says that the loop has consumed
  it and is about to request \<open>page\<close>. After a page with items the same page number is
  requested again; only an empty page advances it.\<close>

datatype run = Running nat processor | Returned processor

fun process_images_from :: "pylib \<Rightarrow> nat \<Rightarrow> response list \<Rightarrow> processor \<Rightarrow> run" where
  "process_images_from py page [] s = Running page s"
| "process_images_from py page (r # rs) s =
     (let s0 = emit (ApiGet page) s; images = fetch_images r in
      if images = []
      then process_images_from py (page + 1) rs (emit (Sleep REFRESH_INTERVAL) s0)
      else (case for_images py images s0 of
              (Return, s1) \<Rightarrow> Returned s1
            | (Break, s1) \<Rightarrow> process_images_from py 1 rs (emit SleepRemainder s1)
            | (Next, s1) \<Rightarrow> process_images_from py page rs (emit SleepRemainder s1)))"

definition process_images :: "pylib \<Rightarrow> response list \<Rightarrow> processor \<Rightarrow> run" where
  "process_images py rs s = process_images_from py 1 rs s"

section \<open>Start-up\<close>

text \<open>\<^verbatim>\<open>__enter__\<close> launches the driver, connects to the store and loads the stored
  (tags, comment) pairs; \<^verbatim>\<open>main\<close> logs whatever exception escapes and ends.\<close>

record startup =
  launch_failures :: nat
  connect_ok :: bool
  stored_entries :: "(pystr list \<times> pyval) list"

definition enter :: "startup \<Rightarrow> processor \<Rightarrow> exn + processor" where
  "enter st s =
     (case initialize_driver (launch_failures st) s of
        (Inl e, s1) \<Rightarrow> Inl e
      | (Inr u, s1) \<Rightarrow>
          if connect_ok st
          then Inr (s1\<lparr>existing_entries_set := set (stored_entries st)\<rparr>)
          else Inl OtherException)"

datatype outcome = Aborted exn | Ran run

definition main :: "pylib \<Rightarrow> startup \<Rightarrow> response list \<Rightarrow> outcome" where
  "main py st rs =
     (case enter st init of
        Inl e \<Rightarrow> Aborted e
      | Inr s \<Rightarrow> Ran (process_images py rs s))"

section \<open>Observing a run\<close>

fun run_state :: "run \<Rightarrow> processor" where
  "run_state (Running page s) = s"
| "run_state (Returned s) = s"

fun returned :: "run \<Rightarrow> bool" where
  "returned (Running page s) = False"
| "returned (Returned s) = True"

text \<open>The session state without its history buffer, and a run seen that way.\<close>

definition forget_history :: "processor \<Rightarrow> processor" where
  "forget_history s = s\<lparr>previous_images := []\<rparr>"

fun forget_run :: "run \<Rightarrow> run" where
  "forget_run (Running page s) = Running page (forget_history s)"
| "forget_run (Returned s) = Returned (forget_history s)"

section \<open>Concrete inputs\<close>

text \<open>An instance of the built-ins for the concrete inputs below: it agrees with
  Python on strings of ASCII digits and on the other strings used there, none of
  which \<^verbatim>\<open>float\<close> or \<^verbatim>\<open>fromisoformat\<close> accepts.\<close>

definition example_pylib :: pylib where
  "example_pylib =
     \<lparr>str_isdigit = (\<lambda>s. s \<noteq> [] \<and> list_all (\<lambda>c. 48 \<le> c \<and> c \<le> 57) s),
      int_of_str = (\<lambda>s. Some (foldl (\<lambda>a c. 10 * a + (int c - 48)) 0 s)),
      float_of_str = (\<lambda>s. None),
      isoformat_of = (\<lambda>s. None)\<rparr>"

text \<open>Item \<open>i\<close> of user \<open>u\<close>, with url \<^verbatim>\<open>u\<close> and hash \<^verbatim>\<open>h\<close>; an environment in
  which the download carries the comment \<^verbatim>\<open>b'hello'\<close>, the page shows the one tag
  \<^verbatim>\<open>' a '\<close>, the store knows no duplicate and accepts the insert, and the clock
  stands at 0; and the record \<^verbatim>\<open>format_image_data\<close> builds from the two.\<close>

definition example_image :: "int \<Rightarrow> pystr \<Rightarrow> image" where
  "example_image i u =
     \<lparr>img_id = i, img_url = [117], img_hash = [104], img_createdAt = None, img_postId = 1,
      img_username = u\<rparr>"

definition example_env :: item_env where
  "example_env =
     \<lparr>download = Downloaded (Some (ExifBytes [0x68, 0x65, 0x6C, 0x6C, 0x6F])),
      render = (\<lambda>n. PageLoaded [[32, 97, 32]]),
      duplicate_query = Some 0, insert_ok = True, now_check = 0, now_insert = 0\<rparr>"

definition example_data :: "int \<Rightarrow> pyval \<Rightarrow> image_data" where
  "example_data i u =
     \<lparr>d_id = i, d_url = PStr [117], d_hash = PStr [104], d_createdAt = PNone, d_postId = 1,
      d_username = u, d_web_url = PStr ([119, 101, 98, 115, 105, 116, 101, 47] @ str_int i),
      d_tags = [[97]], d_user_comment = PStr [104, 101, 108, 108, 111]\<rparr>"

text \<open>A page that loads with no tag on the first attempt and shows the tag on
  every later one; and a session that crashes on every attempt, after which the
  browser cannot be launched three times in a row.\<close>

definition empty_then_tagged :: "nat \<Rightarrow> attempt" where
  "empty_then_tagged n = (if n = 0 then PageLoaded [] else PageLoaded [[32, 97, 32]])"

definition crashed_session :: "nat \<Rightarrow> attempt" where
  "crashed_session n = AttemptRaises WebDriverException 3"


section \<open>Effects and frames\<close>

lemma emit_append: "emit e (s\<lparr>effects := effects s @ es\<rparr>) = s\<lparr>effects := effects s @ (es @ [e])\<rparr>"
  by (simp add: emit_def)

lemma emit_first: "emit e s = s\<lparr>effects := effects s @ [e]\<rparr>"
  by (simp add: emit_def)

lemma initialize_driver_from_effects:
  "\<exists>res es. \<forall>s. initialize_driver_from r f s = (res, s\<lparr>effects := effects s @ es\<rparr>)"
proof (induction "MAX_DRIVER_RETRIES - r" arbitrary: r)
  case 0
  then have "\<not> r < MAX_DRIVER_RETRIES" by simp
  then have "\<forall>s. initialize_driver_from r f s = (Inl WebDriverException, s\<lparr>effects := effects s @ []\<rparr>)"
    by (simp add: initialize_driver_from.simps)
  then show ?case by blast
next
  case (Suc n)
  then have lt: "r < MAX_DRIVER_RETRIES" by simp
  show ?case
  proof (cases "r < f")
    case True
    from Suc have "n = MAX_DRIVER_RETRIES - (r + 1)" by simp
    from Suc.hyps(1)[OF this] obtain res es where
      ih: "\<forall>s. initialize_driver_from (r + 1) f s = (res, s\<lparr>effects := effects s @ es\<rparr>)"
      by blast
    have "\<forall>s. initialize_driver_from r f s
            = (res, s\<lparr>effects := effects s @ ([DriverLaunch, Sleep RETRY_DELAY] @ es)\<rparr>)"
      using lt True ih by (simp add: initialize_driver_from.simps [of r] emit_def)
    then show ?thesis by blast
  next
    case False
    have "\<forall>s. initialize_driver_from r f s = (Inr (), s\<lparr>effects := effects s @ [DriverLaunch]\<rparr>)"
      using lt False by (simp add: initialize_driver_from.simps [of r] emit_def)
    then show ?thesis by blast
  qed
qed

lemma initialize_driver_effects:
  "\<exists>res es. \<forall>s. initialize_driver f s = (res, s\<lparr>effects := effects s @ es\<rparr>)"
  unfolding initialize_driver_def by (rule initialize_driver_from_effects)

lemma extract_image_details_from_effects:
  "\<exists>res es. \<forall>s. extract_image_details_from r img outcome s = (res, s\<lparr>effects := effects s @ es\<rparr>)"
proof (induction "MAX_RETRIES - r" arbitrary: r)
  case 0
  then have "\<not> r < MAX_RETRIES" by simp
  then have "\<forall>s. extract_image_details_from r img outcome s = (Inr [], s\<lparr>effects := effects s @ []\<rparr>)"
    by (simp add: extract_image_details_from.simps)
  then show ?case by blast
next
  case (Suc n)
  then have lt: "r < MAX_RETRIES" by simp
  from Suc have "n = MAX_RETRIES - (r + 1)" by simp
  from Suc.hyps(1)[OF this] obtain res es where
    ih: "\<forall>s. extract_image_details_from (r + 1) img outcome s = (res, s\<lparr>effects := effects s @ es\<rparr>)"
    by blast
  show ?case
  proof (cases "outcome r")
    case (PageLoaded texts)
    have "\<forall>s. extract_image_details_from r img outcome s
            = (if collect_tags texts \<noteq> [] then Inr (collect_tags texts) else Inl ValueError,
               s\<lparr>effects := effects s @ [DriverGet (img_id img)]\<rparr>)"
      using lt PageLoaded by (simp add: extract_image_details_from.simps [of r] emit_def Let_def)
    then show ?thesis by blast
  next
    case (AttemptRaises e k)
    obtain ires ies where
      init: "\<forall>s. initialize_driver k s = (ires, s\<lparr>effects := effects s @ ies\<rparr>)"
      using initialize_driver_effects by blast
    show ?thesis
    proof (cases "isinstance_WebDriverException e")
      case False
      then have "\<not> isinstance_TimeoutException e" by (cases e) simp_all
      with False have "\<forall>s. extract_image_details_from r img outcome s
            = (Inl e, s\<lparr>effects := effects s @ [DriverGet (img_id img)]\<rparr>)"
        using lt AttemptRaises by (simp add: extract_image_details_from.simps [of r] emit_def Let_def)
      then show ?thesis by blast
    next
      case True
      show ?thesis
      proof (cases ires)
        case (Inl e')
        have "\<forall>s. extract_image_details_from r img outcome s
            = (Inl e', s\<lparr>effects := effects s @ ([DriverGet (img_id img), DriverQuit] @ ies)\<rparr>)"
          using lt AttemptRaises True Inl init
          by (simp add: extract_image_details_from.simps [of r] emit_def Let_def)
        then show ?thesis by blast
      next
        case (Inr u)
        have "\<forall>s. extract_image_details_from r img outcome s
            = (res, s\<lparr>effects := effects s
                 @ ([DriverGet (img_id img), DriverQuit] @ ies @ [Sleep RETRY_DELAY] @ es)\<rparr>)"
          using lt AttemptRaises True Inr init ih
          by (simp add: extract_image_details_from.simps [of r] emit_def Let_def)
        then show ?thesis by blast
      qed
    qed
  qed
qed

lemma process_image_effects:
  "\<exists>res es. \<forall>s. process_image py img env s = (res, s\<lparr>effects := effects s @ es\<rparr>)"
proof -
  obtain xres xes where
    x: "\<forall>s. extract_image_details img (render env) s = (xres, s\<lparr>effects := effects s @ xes\<rparr>)"
    using extract_image_details_from_effects unfolding extract_image_details_def by blast
  show ?thesis
  proof (cases "download env")
    case DownloadFails
    then have "\<forall>s. process_image py img env s = (None, s\<lparr>effects := effects s @ [HttpGet (img_id img)]\<rparr>)"
      by (simp add: process_image_def emit_def)
    then show ?thesis by blast
  next
    case (Downloaded exif)
    show ?thesis
    proof (cases "extract_exif_user_comment exif")
      case None
      with Downloaded have "\<forall>s. process_image py img env s = (None, s\<lparr>effects := effects s @ [HttpGet (img_id img)]\<rparr>)"
        by (simp add: process_image_def emit_def)
      then show ?thesis by blast
    next
      case (Some c)
      show ?thesis
      proof (cases "c = []")
        case True
        with Downloaded Some have "\<forall>s. process_image py img env s = (None, s\<lparr>effects := effects s @ [HttpGet (img_id img)]\<rparr>)"
          by (simp add: process_image_def emit_def)
        then show ?thesis by blast
      next
        case False
        with Downloaded Some x have "\<forall>s. process_image py img env s
           = ((case xres of Inl e \<Rightarrow> None
               | Inr tags \<Rightarrow> if tags = [] then None
                   else (case format_image_data py img tags c of Inl e \<Rightarrow> None | Inr d \<Rightarrow> Some d)),
              s\<lparr>effects := effects s @ ([HttpGet (img_id img)] @ xes)\<rparr>)"
          by (simp add: process_image_def emit_def split: sum.splits)
        then show ?thesis by blast
      qed
    qed
  qed
qed

section \<open>The loop body, case by case\<close>

text \<open>The four ways through the loop body.\<close>

lemma item_step_cases:
  assumes "item_step py x s = (d, c, s')"
  obtains
    (recent) "recent_post (fst x) (snd x) s" "d = SkipRecent" "c = Next"
      "s' = s\<lparr>skipped_count := skipped_count s + 1\<rparr>"
  | (processed) "\<not> recent_post (fst x) (snd x) s" "img_id (fst x) \<in> processed_ids s"
      "d = SkipProcessed" "c = Next" "s' = s\<lparr>skipped_count := skipped_count s + 1\<rparr>"
  | (none) s1 where "\<not> recent_post (fst x) (snd x) s" "img_id (fst x) \<notin> processed_ids s"
      "process_image py (fst x) (snd x) s = (None, s1)" "d = NoCandidate"
      "check_limits s1 = (c, s')"
  | (candidate) cand s1 s2 where "\<not> recent_post (fst x) (snd x) s"
      "img_id (fst x) \<notin> processed_ids s"
      "process_image py (fst x) (snd x) s = (Some cand, s1)"
      "handle_candidate cand (snd x) s1 = (d, s2)" "check_limits s2 = (c, s')"
  using assms
  by (auto simp: item_step_def Let_def split: if_splits prod.splits option.splits)

lemma process_image_frame:
  assumes "process_image py img env s = (r, s1)"
  shows "s1 = s\<lparr>effects := effects s1\<rparr>"
proof -
  obtain res es where "\<forall>s. process_image py img env s = (res, s\<lparr>effects := effects s @ es\<rparr>)"
    using process_image_effects by blast
  with assms have "s1 = s\<lparr>effects := effects s @ es\<rparr>" by simp
  then show ?thesis by simp
qed

lemma process_image_fields:
  assumes "process_image py img env s = (r, s1)"
  shows "processed_count s1 = processed_count s" "skipped_count s1 = skipped_count s"
    "consecutive_duplicate_count s1 = consecutive_duplicate_count s"
    "previous_images s1 = previous_images s" "processed_ids s1 = processed_ids s"
    "recent_users s1 = recent_users s" "existing_entries_set s1 = existing_entries_set s"
  by (subst process_image_frame [OF assms], simp)+

lemma handle_candidate_streak:
  assumes "handle_candidate cand env s = (d, s2)"
  shows "(d = SkipDuplicate \<or> d = SkipSimilar \<or> d = Inserted)
    \<and> (d \<noteq> Inserted \<longrightarrow> consecutive_duplicate_count s2 = consecutive_duplicate_count s + 1
          \<and> skipped_count s2 = skipped_count s + 1 \<and> processed_count s2 = processed_count s)
    \<and> (d = Inserted \<longrightarrow> consecutive_duplicate_count s2 = 0
          \<and> skipped_count s2 = skipped_count s \<and> processed_count s2 = processed_count s + 1)"
  using assms
  by (auto simp: handle_candidate_def count_duplicate_def record_insert_def insert_into_db_def
        trim_history_def emit_def Let_def split: if_splits)

lemma check_limits_cases:
  assumes "check_limits s = (c, s')"
  shows "(c = Break \<longleftrightarrow> PROCESS_THRESHOLD \<le> processed_count s)
    \<and> (c = Return \<longleftrightarrow> processed_count s < PROCESS_THRESHOLD \<and> 10 \<le> consecutive_duplicate_count s)
    \<and> (c \<noteq> Break \<longrightarrow> s' = s)
    \<and> (c = Break \<longrightarrow> s' = s\<lparr>effects := effects s @ [Sleep PAUSE_DURATION],
                                processed_count := 0, skipped_count := 0\<rparr>)"
  using assms by (auto simp: check_limits_def emit_def split: if_splits)

lemma item_step_streak:
  assumes step: "item_step py x s = (d, c, s')"
  shows "(d = SkipDuplicate \<or> d = SkipSimilar \<longrightarrow>
            consecutive_duplicate_count s' = consecutive_duplicate_count s + 1)
       \<and> (d = Inserted \<longrightarrow> consecutive_duplicate_count s' = 0)
       \<and> (d = SkipRecent \<or> d = SkipProcessed \<or> d = NoCandidate \<longrightarrow>
            consecutive_duplicate_count s' = consecutive_duplicate_count s)"
  using step
proof (cases rule: item_step_cases)
  case recent
  then show ?thesis by simp
next
  case processed
  then show ?thesis by simp
next
  case (none s1)
  from check_limits_cases [OF none(5)] process_image_fields [OF none(3)] none(4)
  show ?thesis by (cases "c = Break") auto
next
  case (candidate cand s1 s2)
  from check_limits_cases [OF candidate(5)] process_image_fields [OF candidate(3)]
    handle_candidate_streak [OF candidate(4)]
  show ?thesis by (cases "c = Break") auto
qed

lemma item_step_return:
  assumes step: "item_step py x s = (d, c, s')"
    and quota: "processed_count s < PROCESS_THRESHOLD"
  shows "c = Return \<longleftrightarrow> 10 \<le> consecutive_duplicate_count s' \<and> d \<noteq> SkipRecent \<and> d \<noteq> SkipProcessed"
  using step
proof (cases rule: item_step_cases)
  case recent
  then show ?thesis by simp
next
  case processed
  then show ?thesis by simp
next
  case (none s1)
  from check_limits_cases [OF none(5)] process_image_fields [OF none(3)] none(4) quota
  show ?thesis by (cases "c = Break") auto
next
  case (candidate cand s1 s2)
  from check_limits_cases [OF candidate(5)] process_image_fields [OF candidate(3)]
    handle_candidate_streak [OF candidate(4)] quota
  show ?thesis by (cases "c = Break") (auto simp: PROCESS_THRESHOLD_def)
qed

text \<open>The loop invariant: below the quota and below the streak limit.\<close>

lemma item_step_invariant:
  assumes step: "item_step py x s = (d, c, s')"
    and quota: "processed_count s < PROCESS_THRESHOLD"
    and streak: "consecutive_duplicate_count s < 10"
  shows "processed_count s' < PROCESS_THRESHOLD
       \<and> (c = Return \<longrightarrow> consecutive_duplicate_count s' = 10)
       \<and> (c \<noteq> Return \<longrightarrow> consecutive_duplicate_count s' < 10)"
  using step
proof (cases rule: item_step_cases)
  case recent
  then show ?thesis using quota streak by simp
next
  case processed
  then show ?thesis using quota streak by simp
next
  case (none s1)
  from check_limits_cases [OF none(5)] process_image_fields [OF none(3)] none(4) quota streak
  show ?thesis by (cases "c = Break") auto
next
  case (candidate cand s1 s2)
  from check_limits_cases [OF candidate(5)] process_image_fields [OF candidate(3)]
    handle_candidate_streak [OF candidate(4)] quota streak
  show ?thesis by (cases "c = Break") (auto simp: PROCESS_THRESHOLD_def)
qed

lemma for_images_invariant:
  assumes "for_images py xs s = (c, s')"
    and "processed_count s < PROCESS_THRESHOLD"
    and "consecutive_duplicate_count s < 10"
  shows "processed_count s' < PROCESS_THRESHOLD
       \<and> (c = Return \<longrightarrow> consecutive_duplicate_count s' = 10)
       \<and> (c \<noteq> Return \<longrightarrow> consecutive_duplicate_count s' < 10)"
  using assms
proof (induction xs arbitrary: s)
  case Nil
  then show ?case by auto
next
  case (Cons x xs)
  obtain d c1 s1 where step: "item_step py x s = (d, c1, s1)" by (cases "item_step py x s") auto
  note inv = item_step_invariant [OF step Cons.prems(2) Cons.prems(3)]
  show ?case
  proof (cases c1)
    case Next
    with step Cons.prems(1) have "for_images py xs s1 = (c, s')" by simp
    from Cons.IH [OF this] inv Next show ?thesis by simp
  next
    case Break
    with step Cons.prems(1) have "c = Break" "s' = s1" by simp_all
    with inv Break show ?thesis by simp
  next
    case Return
    with step Cons.prems(1) have "c = Return" "s' = s1" by simp_all
    with inv Return show ?thesis by simp
  qed
qed

lemma process_images_from_invariant:
  assumes "processed_count s < PROCESS_THRESHOLD"
    and "consecutive_duplicate_count s < 10"
  shows "processed_count (run_state (process_images_from py page rs s)) < PROCESS_THRESHOLD
       \<and> (returned (process_images_from py page rs s) \<longrightarrow>
            consecutive_duplicate_count (run_state (process_images_from py page rs s)) = 10)
       \<and> (\<not> returned (process_images_from py page rs s) \<longrightarrow>
            consecutive_duplicate_count (run_state (process_images_from py page rs s)) < 10)"
  using assms
proof (induction rs arbitrary: s page)
  case Nil
  then show ?case by simp
next
  case (Cons r rs)
  let ?s0 = "emit (ApiGet page) s"
  have s0: "processed_count ?s0 < PROCESS_THRESHOLD" "consecutive_duplicate_count ?s0 < 10"
    using Cons.prems by (simp_all add: emit_def)
  show ?case
  proof (cases "fetch_images r = []")
    case True
    have "processed_count (emit (Sleep REFRESH_INTERVAL) ?s0) < PROCESS_THRESHOLD"
      "consecutive_duplicate_count (emit (Sleep REFRESH_INTERVAL) ?s0) < 10"
      using s0 by (simp_all add: emit_def)
    from Cons.IH [OF this, of "page + 1"] True show ?thesis by simp
  next
    case False
    obtain c s1 where loop: "for_images py (fetch_images r) ?s0 = (c, s1)"
      by (cases "for_images py (fetch_images r) ?s0") auto
    note inv = for_images_invariant [OF loop s0]
    show ?thesis
    proof (cases c)
      case Next
      with inv have "processed_count (emit SleepRemainder s1) < PROCESS_THRESHOLD"
        "consecutive_duplicate_count (emit SleepRemainder s1) < 10"
        by (simp_all add: emit_def)
      from Cons.IH [OF this, of page] False loop Next show ?thesis by simp
    next
      case Break
      with inv have "processed_count (emit SleepRemainder s1) < PROCESS_THRESHOLD"
        "consecutive_duplicate_count (emit SleepRemainder s1) < 10"
        by (simp_all add: emit_def)
      from Cons.IH [OF this, of 1] False loop Break show ?thesis by simp
    next
      case Return
      with inv False loop show ?thesis by simp
    qed
  qed
qed

section \<open>Effects only grow\<close>

lemma process_image_effects_grow:
  assumes "process_image py img env s = (r, s1)"
  shows "\<exists>es. effects s1 = effects s @ es"
proof -
  obtain res es where "\<forall>s. process_image py img env s = (res, s\<lparr>effects := effects s @ es\<rparr>)"
    using process_image_effects by blast
  with assms have "s1 = s\<lparr>effects := effects s @ es\<rparr>" by simp
  then show ?thesis by simp
qed

lemma handle_candidate_effects_grow:
  assumes "handle_candidate cand env s = (d, s2)"
  shows "\<exists>es. effects s2 = effects s @ es"
  using assms
  by (auto simp: handle_candidate_def count_duplicate_def record_insert_def insert_into_db_def
        trim_history_def emit_def Let_def split: if_splits)

lemma check_limits_effects_grow:
  assumes "check_limits s = (c, s')"
  shows "\<exists>es. effects s' = effects s @ es"
  using assms by (auto simp: check_limits_def emit_def split: if_splits)

lemma item_step_effects_grow:
  assumes step: "item_step py x s = (d, c, s')"
  shows "\<exists>es. effects s' = effects s @ es"
  using step
proof (cases rule: item_step_cases)
  case recent
  then show ?thesis by simp
next
  case processed
  then show ?thesis by simp
next
  case (none s1)
  from process_image_effects_grow [OF none(3)] check_limits_effects_grow [OF none(5)]
  show ?thesis by auto
next
  case (candidate cand s1 s2)
  from process_image_effects_grow [OF candidate(3)]
    handle_candidate_effects_grow [OF candidate(4)] check_limits_effects_grow [OF candidate(5)]
  show ?thesis by auto
qed

lemma for_images_effects_grow:
  assumes "for_images py xs s = (c, s')"
  shows "\<exists>es. effects s' = effects s @ es"
  using assms
proof (induction xs arbitrary: s)
  case Nil
  then show ?case by simp
next
  case (Cons x xs)
  obtain d c1 s1 where step: "item_step py x s = (d, c1, s1)"
    by (cases "item_step py x s") auto
  from item_step_effects_grow [OF step] obtain es where es: "effects s1 = effects s @ es"
    by blast
  show ?case
  proof (cases c1)
    case Next
    with step Cons.prems have "for_images py xs s1 = (c, s')" by simp
    from Cons.IH [OF this] es show ?thesis by auto
  next
    case Break
    with step Cons.prems es show ?thesis by simp
  next
    case Return
    with step Cons.prems es show ?thesis by simp
  qed
qed

lemma process_images_from_effects:
  "\<exists>es. effects (run_state (process_images_from py page rs s)) = effects s @ es"
proof (induction rs arbitrary: s page)
  case Nil
  then show ?case by simp
next
  case (Cons r rs)
  let ?s0 = "emit (ApiGet page) s"
  show ?case
  proof (cases "fetch_images r = []")
    case True
    from Cons.IH [of "page + 1" "emit (Sleep REFRESH_INTERVAL) ?s0"] True
    show ?thesis by (auto simp: emit_def)
  next
    case False
    obtain c s1 where loop: "for_images py (fetch_images r) ?s0 = (c, s1)"
      by (cases "for_images py (fetch_images r) ?s0") auto
    from for_images_effects_grow [OF loop] obtain es where
      es: "effects s1 = effects s @ ApiGet page # es"
      by (auto simp: emit_def)
    show ?thesis
    proof (cases c)
      case Next
      from Cons.IH [of page "emit SleepRemainder s1"] False loop Next es show ?thesis
        by (auto simp: emit_def)
    next
      case Break
      from Cons.IH [of 1 "emit SleepRemainder s1"] False loop Break es show ?thesis
        by (auto simp: emit_def)
    next
      case Return
      with False loop es show ?thesis by simp
    qed
  qed
qed

lemma process_images_from_first_effect:
  "\<exists>es. effects (run_state (process_images_from py page (r # rs) s))
      = effects s @ ApiGet page # es"
proof -
  let ?s0 = "emit (ApiGet page) s"
  show ?thesis
  proof (cases "fetch_images r = []")
    case True
    from process_images_from_effects [of py "page + 1" rs "emit (Sleep REFRESH_INTERVAL) ?s0"] True
    show ?thesis by (auto simp: emit_def)
  next
    case False
    obtain c s1 where loop: "for_images py (fetch_images r) ?s0 = (c, s1)"
      by (cases "for_images py (fetch_images r) ?s0") auto
    from for_images_effects_grow [OF loop] obtain es where
      es: "effects s1 = effects s @ ApiGet page # es"
      by (auto simp: emit_def)
    show ?thesis
    proof (cases c)
      case Next
      from process_images_from_effects [of py page rs "emit SleepRemainder s1"] False loop Next es
      show ?thesis by (auto simp: emit_def)
    next
      case Break
      from process_images_from_effects [of py 1 rs "emit SleepRemainder s1"] False loop Break es
      show ?thesis by (auto simp: emit_def)
    next
      case Return
      with False loop es show ?thesis by simp
    qed
  qed
qed

lemma for_images_append:
  "for_images py pre s0 = (Next, s) \<Longrightarrow> for_images py (pre @ ys) s0 = for_images py ys s"
proof (induction pre arbitrary: s0)
  case Nil
  then show ?case by simp
next
  case (Cons x pre)
  obtain d c1 s1 where step: "item_step py x s0 = (d, c1, s1)"
    by (cases "item_step py x s0") auto
  show ?case
  proof (cases c1)
    case Next
    with step Cons.prems have "for_images py pre s1 = (Next, s)" by simp
    from Cons.IH [OF this] step Next show ?thesis by simp
  next
    case Break
    with step Cons.prems show ?thesis by simp
  next
    case Return
    with step Cons.prems show ?thesis by simp
  qed
qed

section \<open>Faults during extraction\<close>

lemma initialize_driver_from_exhausted:
  "MAX_DRIVER_RETRIES \<le> k \<Longrightarrow> fst (initialize_driver_from r k s) = Inl WebDriverException"
proof (induction "MAX_DRIVER_RETRIES - r" arbitrary: r s)
  case 0
  then show ?case by (simp add: initialize_driver_from.simps [of r])
next
  case (Suc n)
  then have "r < k" "n = MAX_DRIVER_RETRIES - (r + 1)" by simp_all
  with Suc.hyps(1) [of "r + 1"] Suc.prems show ?case
    by (simp add: initialize_driver_from.simps [of r])
qed

lemma extract_exhausted:
  assumes "r < MAX_RETRIES" and "outcome r = AttemptRaises e k"
    and "isinstance_WebDriverException e" and "MAX_DRIVER_RETRIES \<le> k"
  shows "fst (extract_image_details_from r img outcome s) = Inl WebDriverException"
proof -
  let ?s2 = "emit DriverQuit (emit (DriverGet (img_id img)) s)"
  from initialize_driver_from_exhausted [OF assms(4), of 0 ?s2]
  obtain s3 where "initialize_driver k ?s2 = (Inl WebDriverException, s3)"
    unfolding initialize_driver_def by (cases "initialize_driver_from 0 k ?s2") auto
  with assms(1,2,3) show ?thesis
    by (simp add: extract_image_details_from.simps [of r] Let_def)
qed

lemma process_image_extract_raises:
  assumes "fst (extract_image_details img (render env) (emit (HttpGet (img_id img)) s)) = Inl e"
  shows "fst (process_image py img env s) = None"
  using assms
  by (auto simp: process_image_def Let_def split: download.splits option.splits prod.splits sum.splits)

lemma item_step_no_candidate:
  assumes none: "fst (process_image py img env s) = None"
    and "\<not> recent_post img env s" and "img_id img \<notin> processed_ids s"
    and "processed_count s < PROCESS_THRESHOLD" and "consecutive_duplicate_count s < 10"
  shows "\<exists>es. item_step py (img, env) s = (NoCandidate, Next, s\<lparr>effects := effects s @ es\<rparr>)"
proof -
  obtain res es where eff: "\<forall>s. process_image py img env s = (res, s\<lparr>effects := effects s @ es\<rparr>)"
    using process_image_effects by blast
  with none have "res = None" by simp
  with eff assms(2-) have "item_step py (img, env) s = (NoCandidate, Next, s\<lparr>effects := effects s @ es\<rparr>)"
    by (simp add: item_step_def check_limits_def)
  then show ?thesis by blast
qed

section \<open>Python equality\<close>

text \<open>The integer 7 equals the float 7.0 and no neighbour of it, a NaN equals
  nothing, the two zeros are equal to each other and to the integer 0, and a
  number never equals a string.\<close>

lemma py_eq_examples:
  "py_eq (PInt 7) (PFloat 0x401C000000000000)
   \<and> \<not> py_eq (PInt 7) (PFloat 0x401C000000000001)
   \<and> \<not> py_eq (PFloat 0x7FF8000000000000) (PFloat 0x7FF8000000000000)
   \<and> py_eq (PFloat 0) (PFloat 0x8000000000000000)
   \<and> py_eq (PInt 0) (PFloat 0x8000000000000000)
   \<and> py_eq (PFloat 0xC000000000000000) (PInt (- 2))
   \<and> \<not> py_eq (PInt 7) (PStr [55])"
  by (simp add: float_int_value_def float_exponent_def float_fraction_def float_negative_def
      float_eq_def float_is_nan_def Let_def)

section \<open>Decoders\<close>

lemma utf8_scalars_ascii: "list_all (\<lambda>c. c < 128) cs \<Longrightarrow> utf8_scalars cs = Some cs"
  by (induction cs) simp_all

lemma ascii_needs_utf8:
  "bytes_decode UTF_8 v = None \<Longrightarrow> bytes_decode ASCII v = None"
  using utf8_scalars_ascii [of "map unat v"] by (cases "list_all (\<lambda>c. c < 128) (map unat v)") simp_all

section \<open>The history buffer through the loop\<close>

lemma handle_candidate_history:
  assumes "handle_candidate cand env s = (d, s2)"
    and "length (previous_images s) \<le> IMAGES_TO_PROCESS"
  shows "(d \<noteq> Inserted \<longrightarrow> previous_images s2 = previous_images s)
       \<and> (d = Inserted \<longrightarrow> previous_images s2
             = (if length (previous_images s) = IMAGES_TO_PROCESS
                then tl (previous_images s) else previous_images s) @ [cand])"
  using assms
  by (cases "previous_images s")
     (auto simp: handle_candidate_def count_duplicate_def record_insert_def insert_into_db_def
        trim_history_def emit_def Let_def IMAGES_TO_PROCESS_def split: if_splits)

lemma check_limits_history:
  "check_limits s = (c, s') \<Longrightarrow> previous_images s' = previous_images s"
  by (auto simp: check_limits_def emit_def split: if_splits)

lemma item_step_history:
  assumes step: "item_step py x s = (d, c, s')"
    and bound: "length (previous_images s) \<le> IMAGES_TO_PROCESS"
  shows "(d \<noteq> Inserted \<longrightarrow> previous_images s' = previous_images s)
       \<and> (d = Inserted \<longrightarrow>
            (\<exists>cand s1. process_image py (fst x) (snd x) s = (Some cand, s1)
               \<and> previous_images s'
                   = (if length (previous_images s) = IMAGES_TO_PROCESS
                      then tl (previous_images s) else previous_images s) @ [cand]))"
  using step
proof (cases rule: item_step_cases)
  case recent
  then show ?thesis by simp
next
  case processed
  then show ?thesis by simp
next
  case (none s1)
  from check_limits_history [OF none(5)] process_image_fields [OF none(3)] none(4)
  show ?thesis by simp
next
  case (candidate cand s1 s2)
  note f = process_image_fields [OF candidate(3)]
  from bound f have "length (previous_images s1) \<le> IMAGES_TO_PROCESS" by simp
  from handle_candidate_history [OF candidate(4) this] check_limits_history [OF candidate(5)]
    f candidate(3)
  show ?thesis by simp
qed

lemma item_step_history_bound:
  assumes step: "item_step py x s = (d, c, s')"
    and bound: "length (previous_images s) \<le> IMAGES_TO_PROCESS"
  shows "length (previous_images s') \<le> IMAGES_TO_PROCESS"
proof (cases "d = Inserted")
  case True
  with item_step_history [OF step bound] obtain cand where
    "previous_images s' = (if length (previous_images s) = IMAGES_TO_PROCESS
        then tl (previous_images s) else previous_images s) @ [cand]"
    by blast
  with bound show ?thesis by (auto simp: IMAGES_TO_PROCESS_def)
next
  case False
  with item_step_history [OF step bound] bound show ?thesis by simp
qed

lemma for_images_history_bound:
  assumes "for_images py xs s = (c, s')"
    and "length (previous_images s) \<le> IMAGES_TO_PROCESS"
  shows "length (previous_images s') \<le> IMAGES_TO_PROCESS"
  using assms
proof (induction xs arbitrary: s)
  case Nil
  then show ?case by simp
next
  case (Cons x xs)
  obtain d c1 s1 where step: "item_step py x s = (d, c1, s1)"
    by (cases "item_step py x s") auto
  note b = item_step_history_bound [OF step Cons.prems(2)]
  show ?case
  proof (cases c1)
    case Next
    with step Cons.prems(1) have "for_images py xs s1 = (c, s')" by simp
    from Cons.IH [OF this b] show ?thesis .
  next
    case Break
    with step Cons.prems(1) b show ?thesis by simp
  next
    case Return
    with step Cons.prems(1) b show ?thesis by simp
  qed
qed

lemma process_images_from_history_bound:
  assumes "length (previous_images s) \<le> IMAGES_TO_PROCESS"
  shows "length (previous_images (run_state (process_images_from py page rs s)))
           \<le> IMAGES_TO_PROCESS"
  using assms
proof (induction rs arbitrary: s page)
  case Nil
  then show ?case by simp
next
  case (Cons r rs)
  let ?s0 = "emit (ApiGet page) s"
  have s0: "length (previous_images ?s0) \<le> IMAGES_TO_PROCESS"
    using Cons.prems by (simp add: emit_def)
  show ?case
  proof (cases "fetch_images r = []")
    case True
    have "length (previous_images (emit (Sleep REFRESH_INTERVAL) ?s0)) \<le> IMAGES_TO_PROCESS"
      using s0 by (simp add: emit_def)
    from Cons.IH [OF this, of "page + 1"] True show ?thesis by simp
  next
    case False
    obtain c s1 where loop: "for_images py (fetch_images r) ?s0 = (c, s1)"
      by (cases "for_images py (fetch_images r) ?s0") auto
    from for_images_history_bound [OF loop s0]
    have b: "length (previous_images (emit SleepRemainder s1)) \<le> IMAGES_TO_PROCESS"
      "length (previous_images s1) \<le> IMAGES_TO_PROCESS"
      by (simp_all add: emit_def)
    show ?thesis
    proof (cases c)
      case Next
      from Cons.IH [OF b(1), of page] False loop Next show ?thesis by simp
    next
      case Break
      from Cons.IH [OF b(1), of 1] False loop Break show ?thesis by simp
    next
      case Return
      with b(2) False loop show ?thesis by simp
    qed
  qed
qed

section \<open>States that differ in the history buffer\<close>

lemma forget_history_fields:
  assumes "forget_history s1 = forget_history s2"
  shows "processed_count s1 = processed_count s2" "skipped_count s1 = skipped_count s2"
    "consecutive_duplicate_count s1 = consecutive_duplicate_count s2"
    "processed_ids s1 = processed_ids s2" "recent_users s1 = recent_users s2"
    "existing_entries_set s1 = existing_entries_set s2" "effects s1 = effects s2"
proof -
  have "processed_count (forget_history s1) = processed_count (forget_history s2)"
    "skipped_count (forget_history s1) = skipped_count (forget_history s2)"
    "consecutive_duplicate_count (forget_history s1) = consecutive_duplicate_count (forget_history s2)"
    "processed_ids (forget_history s1) = processed_ids (forget_history s2)"
    "recent_users (forget_history s1) = recent_users (forget_history s2)"
    "existing_entries_set (forget_history s1) = existing_entries_set (forget_history s2)"
    "effects (forget_history s1) = effects (forget_history s2)"
    using assms by simp_all
  then show "processed_count s1 = processed_count s2" "skipped_count s1 = skipped_count s2"
    "consecutive_duplicate_count s1 = consecutive_duplicate_count s2"
    "processed_ids s1 = processed_ids s2" "recent_users s1 = recent_users s2"
    "existing_entries_set s1 = existing_entries_set s2" "effects s1 = effects s2"
    by (simp_all add: forget_history_def)
qed

lemma forget_history_update: "forget_history (s\<lparr>previous_images := h\<rparr>) = forget_history s"
  by (simp add: forget_history_def)

lemma forget_history_eqI:
  assumes "processed_count s1 = processed_count s2" "skipped_count s1 = skipped_count s2"
    "consecutive_duplicate_count s1 = consecutive_duplicate_count s2"
    "processed_ids s1 = processed_ids s2" "recent_users s1 = recent_users s2"
    "existing_entries_set s1 = existing_entries_set s2" "effects s1 = effects s2"
  shows "forget_history s1 = forget_history s2"
  using assms by (cases s1, cases s2) (simp add: forget_history_def)

lemma handle_candidate_forget:
  assumes "forget_history s1 = forget_history s2"
  shows "fst (handle_candidate d env s1) = fst (handle_candidate d env s2)
       \<and> forget_history (snd (handle_candidate d env s1))
           = forget_history (snd (handle_candidate d env s2))"
proof -
  note f = forget_history_fields [OF assms]
  show ?thesis
    by (auto intro!: forget_history_eqI
        simp: f handle_candidate_def is_similar_entry_def count_duplicate_def record_insert_def
          insert_into_db_def trim_history_def emit_def Let_def)
qed

lemma check_limits_forget:
  assumes "forget_history s1 = forget_history s2"
  shows "fst (check_limits s1) = fst (check_limits s2)
       \<and> forget_history (snd (check_limits s1)) = forget_history (snd (check_limits s2))"
proof -
  note f = forget_history_fields [OF assms]
  show ?thesis
    by (auto intro!: forget_history_eqI simp: f check_limits_def emit_def)
qed

lemma item_step_forget:
  assumes eq: "forget_history s1 = forget_history s2"
  shows "fst (item_step py x s1) = fst (item_step py x s2)
       \<and> fst (snd (item_step py x s1)) = fst (snd (item_step py x s2))
       \<and> forget_history (snd (snd (item_step py x s1)))
           = forget_history (snd (snd (item_step py x s2)))"
proof -
  note f = forget_history_fields [OF eq]
  obtain res es where
    eff: "\<forall>s. process_image py (fst x) (snd x) s = (res, s\<lparr>effects := effects s @ es\<rparr>)"
    using process_image_effects by blast
  have pre: "recent_post (fst x) (snd x) s1 = recent_post (fst x) (snd x) s2"
    by (simp add: recent_post_def f)
  have after: "forget_history (s1\<lparr>effects := effects s1 @ es\<rparr>)
      = forget_history (s2\<lparr>effects := effects s2 @ es\<rparr>)"
    by (rule forget_history_eqI) (simp_all add: f)
  have skip: "forget_history (s1\<lparr>skipped_count := skipped_count s1 + 1\<rparr>)
      = forget_history (s2\<lparr>skipped_count := skipped_count s2 + 1\<rparr>)"
    by (rule forget_history_eqI) (simp_all add: f)
  show ?thesis
  proof (cases "recent_post (fst x) (snd x) s2 \<or> img_id (fst x) \<in> processed_ids s2")
    case True
    with pre f(4) skip show ?thesis by (auto simp: item_step_def)
  next
    case False
    show ?thesis
    proof (cases res)
      case None
      from check_limits_forget [OF after] False pre f(4) eff None show ?thesis
        by (simp add: item_step_def Let_def split: prod.splits)
    next
      case (Some d)
      note h = handle_candidate_forget [OF after, of d "snd x"]
      from h have "forget_history (snd (handle_candidate d (snd x) (s1\<lparr>effects := effects s1 @ es\<rparr>)))
          = forget_history (snd (handle_candidate d (snd x) (s2\<lparr>effects := effects s2 @ es\<rparr>)))"
        by simp
      from check_limits_forget [OF this] h False pre f(4) eff Some show ?thesis
        by (auto simp: item_step_def Let_def split: prod.splits)
    qed
  qed
qed

lemma for_images_forget:
  assumes "forget_history s1 = forget_history s2"
  shows "fst (for_images py xs s1) = fst (for_images py xs s2)
       \<and> forget_history (snd (for_images py xs s1)) = forget_history (snd (for_images py xs s2))"
  using assms
proof (induction xs arbitrary: s1 s2)
  case Nil
  then show ?case by simp
next
  case (Cons x xs)
  obtain d1 c1 t1 where a: "item_step py x s1 = (d1, c1, t1)" by (cases "item_step py x s1") auto
  obtain d2 c2 t2 where b: "item_step py x s2 = (d2, c2, t2)" by (cases "item_step py x s2") auto
  from item_step_forget [OF Cons.prems, of py x] a b
  have same: "c1 = c2" "forget_history t1 = forget_history t2" by simp_all
  show ?case
  proof (cases c2)
    case Next
    with Cons.IH [OF same(2)] a b same(1) show ?thesis by simp
  next
    case Break
    with a b same show ?thesis by simp
  next
    case Return
    with a b same show ?thesis by simp
  qed
qed

lemma process_images_from_forget:
  assumes "forget_history s1 = forget_history s2"
  shows "forget_run (process_images_from py page rs s1)
       = forget_run (process_images_from py page rs s2)"
  using assms
proof (induction rs arbitrary: s1 s2 page)
  case Nil
  then show ?case by simp
next
  case (Cons r rs)
  have emitted: "forget_history (emit e t1) = forget_history (emit e t2)"
    if "forget_history t1 = forget_history t2" for e t1 t2
    using forget_history_fields [OF that]
    by (intro forget_history_eqI) (simp_all add: emit_def)
  note s0 = emitted [OF Cons.prems, of "ApiGet page"]
  show ?case
  proof (cases "fetch_images r = []")
    case True
    from Cons.IH [OF emitted [OF s0, of "Sleep REFRESH_INTERVAL"], of "page + 1"] True
    show ?thesis by simp
  next
    case False
    obtain c1 t1 where a: "for_images py (fetch_images r) (emit (ApiGet page) s1) = (c1, t1)"
      by (cases "for_images py (fetch_images r) (emit (ApiGet page) s1)") auto
    obtain c2 t2 where b: "for_images py (fetch_images r) (emit (ApiGet page) s2) = (c2, t2)"
      by (cases "for_images py (fetch_images r) (emit (ApiGet page) s2)") auto
    from for_images_forget [OF s0, of py "fetch_images r"] a b
    have same: "c1 = c2" "forget_history t1 = forget_history t2" by simp_all
    note next_state = emitted [OF same(2), of SleepRemainder]
    show ?thesis
    proof (cases c2)
      case Next
      with Cons.IH [OF next_state, of page] False a b same(1) show ?thesis by simp
    next
      case Break
      with Cons.IH [OF next_state, of 1] False a b same(1) show ?thesis by simp
    next
      case Return
      with False a b same show ?thesis by simp
    qed
  qed
qed

section \<open>Evaluating the concrete inputs\<close>

lemma decode_hello:
  "decode_user_comment (ExifBytes [0x68, 0x65, 0x6C, 0x6C, 0x6F]) = [104, 101, 108, 108, 111]"
  by (simp add: startswith_def unicode_marker_def replace_nul_def)

lemma collect_tags_a: "collect_tags [[32, 97, 32]] = [[97]]"
  by (simp add: collect_tags_def strip_def is_space_def)

lemma extract_first_attempt:
  "render env 0 = PageLoaded [[32, 97, 32]] \<Longrightarrow>
   extract_image_details img (render env) s = (Inr [[97]], emit (DriverGet (img_id img)) s)"
  by (simp add: extract_image_details_def extract_image_details_from.simps [of 0]
      MAX_RETRIES_def collect_tags_a)

lemma format_example:
  "format_image_data example_pylib (example_image i u) [[97]] [104, 101, 108, 108, 111]
   = (case convert_numeric example_pylib (PStr u) of
        Inl e \<Rightarrow> Inl e | Inr v \<Rightarrow> Inr (example_data i v))"
  by (simp add: format_image_data_def example_pylib_def example_image_def and_then_def
      web_url_def standardize_date_def example_data_def split: sum.splits)

lemma convert_a: "convert_numeric example_pylib (PStr [97]) = Inr (PStr [97])"
  by (simp add: example_pylib_def)

lemma convert_7: "convert_numeric example_pylib (PStr [55]) = Inr (PInt 7)"
  by (simp add: example_pylib_def)

lemma process_example:
  assumes "download env = Downloaded (Some (ExifBytes [0x68, 0x65, 0x6C, 0x6C, 0x6F]))"
    and "render env 0 = PageLoaded [[32, 97, 32]]"
    and "convert_numeric example_pylib (PStr u) = Inr v"
  shows "process_image example_pylib (example_image i u) env s
   = (Some (example_data i v), emit (DriverGet i) (emit (HttpGet i) s))"
  using assms
  by (simp add: process_image_def extract_exif_user_comment_def decode_hello
      extract_first_attempt format_example Let_def del: decode_user_comment.simps)
     (simp add: example_image_def)

lemma example_image_sel [simp]:
  "img_id (example_image i u) = i" "img_username (example_image i u) = u"
  by (simp_all add: example_image_def)

lemma example_data_sel [simp]:
  "d_id (example_data i u) = i" "d_username (example_data i u) = u"
  "d_tags (example_data i u) = [[97]]"
  "d_user_comment (example_data i u) = PStr [104, 101, 108, 108, 111]"
  by (simp_all add: example_data_def)

lemma example_step:
  assumes "download env = Downloaded (Some (ExifBytes [0x68, 0x65, 0x6C, 0x6C, 0x6F]))"
    and "render env 0 = PageLoaded [[32, 97, 32]]"
    and "convert_numeric example_pylib (PStr u) = Inr v"
    and "\<not> recent_post (example_image i u) env s"
    and "i \<notin> processed_ids s"
  shows "item_step example_pylib (example_image i u, env) s
    = (fst (handle_candidate (example_data i v) env (emit (DriverGet i) (emit (HttpGet i) s))),
       check_limits
         (snd (handle_candidate (example_data i v) env (emit (DriverGet i) (emit (HttpGet i) s)))))"
  using assms(4,5)
  by (simp add: item_step_def Let_def process_example [OF assms(1,2,3)] split: prod.splits)


section \<open>The duplicate streak\<close>

text \<open>C1. One pass through the loop body raises the duplicate-streak counter by one
  exactly when the candidate is skipped as a duplicate, by the store test or by the
  in-memory test; an insert sets it to 0 whatever it was; the recency skip, the
  processed-id skip and an item without candidate leave it alone. Below the quota
  the pass returns from \<^verbatim>\<open>process_images\<close> exactly when it ends with the counter at
  10 or more, the \<^verbatim>\<open>for\<close> loop and the run then return with that state, and a run
  started below 10 has returned exactly when its counter is 10.\<close>

theorem duplicate_streak:
  assumes step: "item_step py x s = (d, c, s')"
    and quota: "processed_count s < PROCESS_THRESHOLD"
  shows "(consecutive_duplicate_count s' = consecutive_duplicate_count s + 1
            \<longleftrightarrow> d = SkipDuplicate \<or> d = SkipSimilar)
       \<and> (d = Inserted \<longrightarrow> consecutive_duplicate_count s' = 0)
       \<and> (d = SkipRecent \<or> d = SkipProcessed \<or> d = NoCandidate \<longrightarrow>
            consecutive_duplicate_count s' = consecutive_duplicate_count s)
       \<and> (c = Return \<longleftrightarrow>
            10 \<le> consecutive_duplicate_count s' \<and> d \<noteq> SkipRecent \<and> d \<noteq> SkipProcessed)
       \<and> (consecutive_duplicate_count s < 10 \<longrightarrow>
            (c = Return \<longleftrightarrow> consecutive_duplicate_count s' = 10))
       \<and> (c = Return \<longrightarrow>
            (\<forall>xs page rs s0. s = emit (ApiGet page) s0 \<longrightarrow>
               for_images py (x # xs) s = (Return, s')
               \<and> process_images_from py page (Items (x # xs) # rs) s0 = Returned s'))
       \<and> (consecutive_duplicate_count s < 10 \<longrightarrow>
            (\<forall>page rs.
               returned (process_images_from py page rs s)
               \<longleftrightarrow> consecutive_duplicate_count (run_state (process_images_from py page rs s)) = 10))"
proof -
  note st = item_step_streak [OF step]
  have exact: "consecutive_duplicate_count s' = consecutive_duplicate_count s + 1
            \<longleftrightarrow> d = SkipDuplicate \<or> d = SkipSimilar"
    using st by (cases d) auto
  note ret = item_step_return [OF step quota]
  have ten: "consecutive_duplicate_count s < 10 \<longrightarrow>
            (c = Return \<longleftrightarrow> consecutive_duplicate_count s' = 10)"
  proof
    assume lt: "consecutive_duplicate_count s < 10"
    from item_step_invariant [OF step quota lt] show "c = Return \<longleftrightarrow> consecutive_duplicate_count s' = 10"
      by auto
  qed
  have run: "c = Return \<longrightarrow>
            (\<forall>xs page rs s0. s = emit (ApiGet page) s0 \<longrightarrow>
               for_images py (x # xs) s = (Return, s')
               \<and> process_images_from py page (Items (x # xs) # rs) s0 = Returned s')"
    using step by (auto simp: Let_def)
  have inv: "consecutive_duplicate_count s < 10 \<longrightarrow>
            (\<forall>page rs.
               returned (process_images_from py page rs s)
               \<longleftrightarrow> consecutive_duplicate_count (run_state (process_images_from py page rs s)) = 10)"
  proof (intro impI allI)
    fix page rs
    assume lt: "consecutive_duplicate_count s < 10"
    from process_images_from_invariant [OF quota lt, of py page rs]
    show "returned (process_images_from py page rs s)
       \<longleftrightarrow> consecutive_duplicate_count (run_state (process_images_from py page rs s)) = 10"
      by auto
  qed
  from exact st ret ten run inv show ?thesis by blast
qed

theorem duplicate_streak_witness:
  "processed_count (emit (ApiGet 1) (init\<lparr>consecutive_duplicate_count := 9\<rparr>)) < PROCESS_THRESHOLD
   \<and> consecutive_duplicate_count (emit (ApiGet 1) (init\<lparr>consecutive_duplicate_count := 9\<rparr>)) < 10
   \<and> item_step example_pylib (example_image 1 [97], example_env\<lparr>duplicate_query := Some 1\<rparr>)
        (emit (ApiGet 1) (init\<lparr>consecutive_duplicate_count := 9\<rparr>))
      = (SkipDuplicate, Return,
         init\<lparr>consecutive_duplicate_count := 10, skipped_count := 1,
              effects := [ApiGet 1, HttpGet 1, DriverGet 1, DbQuery]\<rparr>)
   \<and> consecutive_duplicate_count
        (init\<lparr>consecutive_duplicate_count := 10, skipped_count := 1,
              effects := [ApiGet 1, HttpGet 1, DriverGet 1, DbQuery]\<rparr>)
      = consecutive_duplicate_count (emit (ApiGet 1) (init\<lparr>consecutive_duplicate_count := 9\<rparr>)) + 1
   \<and> process_images_from example_pylib 1
        [Items [(example_image 1 [97], example_env\<lparr>duplicate_query := Some 1\<rparr>)]]
        (init\<lparr>consecutive_duplicate_count := 9\<rparr>)
      = Returned
         (init\<lparr>consecutive_duplicate_count := 10, skipped_count := 1,
              effects := [ApiGet 1, HttpGet 1, DriverGet 1, DbQuery]\<rparr>)"
proof -
  let ?s = "emit (ApiGet 1) (init\<lparr>consecutive_duplicate_count := 9\<rparr>)"
  have quota: "processed_count ?s < PROCESS_THRESHOLD"
    and streak: "consecutive_duplicate_count ?s < 10"
    by (simp_all add: init_def emit_def PROCESS_THRESHOLD_def)
  have step: "item_step example_pylib (example_image 1 [97], example_env\<lparr>duplicate_query := Some 1\<rparr>) ?s
      = (SkipDuplicate, Return,
         init\<lparr>consecutive_duplicate_count := 10, skipped_count := 1,
              effects := [ApiGet 1, HttpGet 1, DriverGet 1, DbQuery]\<rparr>)"
    by (subst example_step [OF _ _ convert_a])
       (simp_all add: recent_post_def example_env_def
        handle_candidate_def is_duplicate_def count_duplicate_def trim_history_def
        check_limits_def init_def emit_def PROCESS_THRESHOLD_def IMAGES_TO_PROCESS_def)
  note T = duplicate_streak [OF step quota]
  from T have "consecutive_duplicate_count
        (init\<lparr>consecutive_duplicate_count := 10, skipped_count := 1,
              effects := [ApiGet 1, HttpGet 1, DriverGet 1, DbQuery]\<rparr>)
      = consecutive_duplicate_count ?s + 1"
    by blast
  moreover from T have "process_images_from example_pylib 1
        [Items [(example_image 1 [97], example_env\<lparr>duplicate_query := Some 1\<rparr>)]]
        (init\<lparr>consecutive_duplicate_count := 9\<rparr>)
      = Returned
         (init\<lparr>consecutive_duplicate_count := 10, skipped_count := 1,
              effects := [ApiGet 1, HttpGet 1, DriverGet 1, DbQuery]\<rparr>)"
    by blast
  ultimately show ?thesis using quota streak step by blast
qed

section \<open>A failed insert\<close>

text \<open>C2, as stated, fails: the insert below raises, and the pass still counts the
  item as processed (0 to 1), resets the streak (3 to 0), stamps the user, appends to
  the history and adds the id.\<close>

theorem insert_failure_counterexample:
  "\<not> insert_ok (example_env\<lparr>insert_ok := False\<rparr>)
   \<and> item_step example_pylib (example_image 1 [97], example_env\<lparr>insert_ok := False\<rparr>)
        (init\<lparr>consecutive_duplicate_count := 3\<rparr>)
      = (Inserted, Next,
         init\<lparr>processed_count := 1, consecutive_duplicate_count := 0,
              recent_users := (recent_users init)(PStr [97] \<mapsto> 0),
              previous_images := [example_data 1 (PStr [97])],
              processed_ids := {1},
              effects := [HttpGet 1, DriverGet 1, DbQuery, DbInsert]\<rparr>)"
  by (subst example_step [OF _ _ convert_a])
     (simp_all add: recent_post_def example_env_def handle_candidate_def is_duplicate_def
        is_similar_entry_def record_insert_def insert_into_db_def trim_history_def
        check_limits_def init_def emit_def PROCESS_THRESHOLD_def IMAGES_TO_PROCESS_def
        example_data_def)

text \<open>C2, amended. When the pass takes the insert branch and the insert raises, the
  exception is logged and swallowed and the in-memory set of stored entries is not
  extended, but every other piece of bookkeeping takes place: the processed counter
  advances, the streak counter becomes 0, the user is stamped, the record is appended
  to the history (which is then trimmed at the front) and the id is added. Stated one
  short of the quota, so that the quota reset does not interfere.\<close>

theorem insert_failure_bookkeeping:
  assumes step: "item_step py (img, env) s = (Inserted, c, s')"
    and fail: "\<not> insert_ok env"
    and below: "processed_count s + 1 < PROCESS_THRESHOLD"
  shows "\<exists>d s1. process_image py img env s = (Some d, s1)
           \<and> processed_count s' = processed_count s + 1
           \<and> consecutive_duplicate_count s' = 0
           \<and> skipped_count s' = skipped_count s
           \<and> recent_users s' = (recent_users s)(d_username d \<mapsto> now_insert env)
           \<and> previous_images s'
               = (if IMAGES_TO_PROCESS \<le> length (previous_images s)
                  then tl (previous_images s) else previous_images s) @ [d]
           \<and> processed_ids s' = insert (d_id d) (processed_ids s)
           \<and> existing_entries_set s' = existing_entries_set s
           \<and> effects s' = effects s1 @ [DbQuery, DbInsert]"
  using step
proof (cases rule: item_step_cases)
  case (candidate cand s1 s2)
  note f = process_image_fields [OF candidate(3)]
  from candidate(4) fail have s2: "s2 = trim_history (record_insert cand env (emit DbInsert (emit DbQuery s1)))"
    by (auto simp: handle_candidate_def insert_into_db_def Let_def split: if_splits)
  have pc: "processed_count s2 = processed_count s + 1"
    unfolding s2 using f by (simp add: trim_history_def record_insert_def emit_def)
  with below candidate(5) have "s' = s2" by (auto simp: check_limits_def split: if_splits)
  moreover have "previous_images s2
               = (if IMAGES_TO_PROCESS \<le> length (previous_images s)
                  then tl (previous_images s) else previous_images s) @ [cand]"
    unfolding s2 using f
    by (cases "previous_images s")
       (auto simp: trim_history_def record_insert_def emit_def IMAGES_TO_PROCESS_def)
  moreover have "consecutive_duplicate_count s2 = 0" "skipped_count s2 = skipped_count s"
    "recent_users s2 = (recent_users s)(d_username cand \<mapsto> now_insert env)"
    "processed_ids s2 = insert (d_id cand) (processed_ids s)"
    "existing_entries_set s2 = existing_entries_set s"
    "effects s2 = effects s1 @ [DbQuery, DbInsert]"
    unfolding s2 using f by (simp_all add: trim_history_def record_insert_def emit_def)
  ultimately show ?thesis using pc candidate(3) by simp
qed simp_all

theorem insert_failure_bookkeeping_witness:
  "item_step example_pylib (example_image 1 [97], example_env\<lparr>insert_ok := False\<rparr>) init
     = (Inserted, Next,
         init\<lparr>processed_count := 1,
              recent_users := (recent_users init)(PStr [97] \<mapsto> 0),
              previous_images := [example_data 1 (PStr [97])],
              processed_ids := {1},
              effects := [HttpGet 1, DriverGet 1, DbQuery, DbInsert]\<rparr>)
   \<and> \<not> insert_ok (example_env\<lparr>insert_ok := False\<rparr>)
   \<and> processed_count init + 1 < PROCESS_THRESHOLD
   \<and> existing_entries_set
        (init\<lparr>processed_count := 1,
              recent_users := (recent_users init)(PStr [97] \<mapsto> 0),
              previous_images := [example_data 1 (PStr [97])],
              processed_ids := {1},
              effects := [HttpGet 1, DriverGet 1, DbQuery, DbInsert]\<rparr>)
      = existing_entries_set init"
proof -
  have step: "item_step example_pylib (example_image 1 [97], example_env\<lparr>insert_ok := False\<rparr>) init
     = (Inserted, Next,
         init\<lparr>processed_count := 1,
              recent_users := (recent_users init)(PStr [97] \<mapsto> 0),
              previous_images := [example_data 1 (PStr [97])],
              processed_ids := {1},
              effects := [HttpGet 1, DriverGet 1, DbQuery, DbInsert]\<rparr>)"
    by (subst example_step [OF _ _ convert_a])
       (simp_all add: recent_post_def example_env_def handle_candidate_def is_duplicate_def
          is_similar_entry_def record_insert_def insert_into_db_def trim_history_def
          check_limits_def init_def emit_def PROCESS_THRESHOLD_def IMAGES_TO_PROCESS_def
          example_data_def)
  have fail: "\<not> insert_ok (example_env\<lparr>insert_ok := False\<rparr>)" by simp
  have below: "processed_count init + 1 < PROCESS_THRESHOLD"
    by (simp add: init_def PROCESS_THRESHOLD_def)
  from insert_failure_bookkeeping [OF step fail below] step fail below show ?thesis by auto
qed

section \<open>The empty page\<close>

text \<open>C3, at the failing input: the first attempt loads the page and finds no tag,
  a second attempt would find one. The \<^verbatim>\<open>ValueError\<close> raised for the empty page is
  not among the exceptions the retry handler names, so it leaves the extractor after
  that one attempt, with no delay and no second navigation, and \<^verbatim>\<open>process_image\<close>
  turns it into \<^verbatim>\<open>None\<close>.\<close>

theorem empty_page_not_retried:
  "extract_image_details (example_image 1 [97]) empty_then_tagged init
     = (Inl ValueError, init\<lparr>effects := [DriverGet 1]\<rparr>)
   \<and> process_image example_pylib (example_image 1 [97])
        (example_env\<lparr>render := empty_then_tagged\<rparr>) init
     = (None, init\<lparr>effects := [HttpGet 1, DriverGet 1]\<rparr>)
   \<and> extract_image_details_from 1 (example_image 1 [97]) empty_then_tagged init
     = (Inr [[97]], init\<lparr>effects := [DriverGet 1]\<rparr>)"
proof -
  have first: "extract_image_details (example_image 1 [97]) empty_then_tagged s
     = (Inl ValueError, emit (DriverGet 1) s)" for s
    by (simp add: extract_image_details_def extract_image_details_from.simps [of 0]
        MAX_RETRIES_def empty_then_tagged_def collect_tags_def)
  have second: "extract_image_details_from 1 (example_image 1 [97]) empty_then_tagged init
     = (Inr [[97]], init\<lparr>effects := [DriverGet 1]\<rparr>)"
    by (subst extract_image_details_from.simps)
       (simp add: MAX_RETRIES_def empty_then_tagged_def collect_tags_a emit_def init_def)
  have item: "process_image example_pylib (example_image 1 [97])
        (example_env\<lparr>render := empty_then_tagged\<rparr>) init
     = (None, init\<lparr>effects := [HttpGet 1, DriverGet 1]\<rparr>)"
    by (simp add: process_image_def extract_exif_user_comment_def decode_hello first
        example_env_def Let_def del: decode_user_comment.simps)
       (simp add: emit_def init_def)
  from first [of init] second item show ?thesis by (simp add: emit_def init_def)
qed

section \<open>The quota cycle\<close>

text \<open>C4. In a pass that starts below the quota, the loop is left by \<^verbatim>\<open>break\<close>
  exactly when an insert raises the processed counter to the threshold. The pass then
  sleeps for the pause duration and ends with the processed, skipped and
  duplicate-streak counters all at 0. Wherever the item stands in its page, after
  any items that went through the loop body before it, the rest of the page is
  dropped and \<^verbatim>\<open>process_images\<close> does not return: whatever page was being read, it
  goes on with a request for page 1.\<close>

theorem quota_cycle:
  assumes step: "item_step py x s = (d, c, s')"
    and quota: "processed_count s < PROCESS_THRESHOLD"
  shows "(c = Break \<longleftrightarrow> d = Inserted \<and> processed_count s + 1 = PROCESS_THRESHOLD)
       \<and> (c = Break \<longrightarrow>
            processed_count s' = 0 \<and> skipped_count s' = 0
            \<and> consecutive_duplicate_count s' = 0
            \<and> effects s' \<noteq> [] \<and> last (effects s') = Sleep PAUSE_DURATION
            \<and> (\<forall>pre xs page rs s0.
                  for_images py pre (emit (ApiGet page) s0) = (Next, s) \<longrightarrow>
                  for_images py (pre @ x # xs) (emit (ApiGet page) s0) = (Break, s')
                  \<and> process_images_from py page (Items (pre @ x # xs) # rs) s0
                      = process_images_from py 1 rs (emit SleepRemainder s')
                  \<and> process_images_from py page [Items (pre @ x # xs)] s0
                      = Running 1 (emit SleepRemainder s')
                  \<and> (\<forall>r. effects (run_state
                              (process_images_from py page (Items (pre @ x # xs) # r # rs) s0))
                           ! length (effects s' @ [SleepRemainder]) = ApiGet 1)))"
proof -
  have local: "(c = Break \<longleftrightarrow> d = Inserted \<and> processed_count s + 1 = PROCESS_THRESHOLD)
       \<and> (c = Break \<longrightarrow> processed_count s' = 0 \<and> skipped_count s' = 0
            \<and> consecutive_duplicate_count s' = 0
            \<and> effects s' \<noteq> [] \<and> last (effects s') = Sleep PAUSE_DURATION)"
    using step
  proof (cases rule: item_step_cases)
    case recent
    then show ?thesis by simp
  next
    case processed
    then show ?thesis by simp
  next
    case (none s1)
    from check_limits_cases [OF none(5)] process_image_fields [OF none(3)] none(4) quota
    show ?thesis by auto
  next
    case (candidate cand s1 s2)
    from check_limits_cases [OF candidate(5)] process_image_fields [OF candidate(3)]
      handle_candidate_streak [OF candidate(4)] quota
    show ?thesis by auto
  qed
  have run: "for_images py (pre @ x # xs) (emit (ApiGet page) s0) = (Break, s')
         \<and> process_images_from py page (Items (pre @ x # xs) # rs) s0
             = process_images_from py 1 rs (emit SleepRemainder s')
         \<and> process_images_from py page [Items (pre @ x # xs)] s0
             = Running 1 (emit SleepRemainder s')
         \<and> (\<forall>r. effects (run_state
                     (process_images_from py page (Items (pre @ x # xs) # r # rs) s0))
                  ! length (effects s' @ [SleepRemainder]) = ApiGet 1)"
    if brk: "c = Break" and pre: "for_images py pre (emit (ApiGet page) s0) = (Next, s)"
    for pre xs page rs s0
  proof -
    from for_images_append [OF pre, of "x # xs"] step brk
    have loop: "for_images py (pre @ x # xs) (emit (ApiGet page) s0) = (Break, s')"
      by simp
    have go: "process_images_from py page (Items (pre @ x # xs) # rs') s0
             = process_images_from py 1 rs' (emit SleepRemainder s')" for rs'
      using loop by (simp add: Let_def)
    have first: "effects (run_state (process_images_from py 1 (r # rs) t))
        ! length (effects t) = ApiGet 1" for r t
    proof -
      from process_images_from_first_effect [of py 1 r rs t]
      obtain es where "effects (run_state (process_images_from py 1 (r # rs) t))
          = effects t @ ApiGet 1 # es"
        by blast
      then show ?thesis by (simp add: nth_append)
    qed
    from first [of _ "emit SleepRemainder s'"]
    have "\<forall>r. effects (run_state (process_images_from py 1 (r # rs) (emit SleepRemainder s')))
        ! length (effects s' @ [SleepRemainder]) = ApiGet 1"
      by (simp add: emit_def)
    with loop go [of rs] go [of "[]"] go show ?thesis by simp
  qed
  from local run show ?thesis by blast
qed

theorem quota_cycle_witness:
  "processed_count (init\<lparr>processed_count := 99, skipped_count := 7, effects := [ApiGet 3, HttpGet 5]\<rparr>) < PROCESS_THRESHOLD
   \<and> for_images example_pylib [(example_image 5 [98], example_env\<lparr>download := DownloadFails\<rparr>)]
        (emit (ApiGet 3) (init\<lparr>processed_count := 99, skipped_count := 7\<rparr>))
     = (Next, init\<lparr>processed_count := 99, skipped_count := 7, effects := [ApiGet 3, HttpGet 5]\<rparr>)
   \<and> item_step example_pylib (example_image 1 [97], example_env)
        (init\<lparr>processed_count := 99, skipped_count := 7, effects := [ApiGet 3, HttpGet 5]\<rparr>)
     = (Inserted, Break,
        init\<lparr>recent_users := (recent_users init)(PStr [97] \<mapsto> 0),
             previous_images := [example_data 1 (PStr [97])],
             processed_ids := {1},
             existing_entries_set := {([[97]], PStr [104, 101, 108, 108, 111])},
             effects := [ApiGet 3, HttpGet 5, HttpGet 1, DriverGet 1, DbQuery, DbInsert,
                         Sleep PAUSE_DURATION]\<rparr>)
   \<and> consecutive_duplicate_count
        (init\<lparr>recent_users := (recent_users init)(PStr [97] \<mapsto> 0),
             previous_images := [example_data 1 (PStr [97])],
             processed_ids := {1},
             existing_entries_set := {([[97]], PStr [104, 101, 108, 108, 111])},
             effects := [ApiGet 3, HttpGet 5, HttpGet 1, DriverGet 1, DbQuery, DbInsert,
                         Sleep PAUSE_DURATION]\<rparr>)
       = 0
   \<and> process_images_from example_pylib 3
        [Items ([(example_image 5 [98], example_env\<lparr>download := DownloadFails\<rparr>)]
                @ (example_image 1 [97], example_env) # [(example_image 2 [98], example_env)])]
        (init\<lparr>processed_count := 99, skipped_count := 7\<rparr>)
     = Running 1
        (emit SleepRemainder
          (init\<lparr>recent_users := (recent_users init)(PStr [97] \<mapsto> 0),
             previous_images := [example_data 1 (PStr [97])],
             processed_ids := {1},
             existing_entries_set := {([[97]], PStr [104, 101, 108, 108, 111])},
             effects := [ApiGet 3, HttpGet 5, HttpGet 1, DriverGet 1, DbQuery, DbInsert,
                         Sleep PAUSE_DURATION]\<rparr>))"
proof -
  let ?s = "init\<lparr>processed_count := 99, skipped_count := 7, effects := [ApiGet 3, HttpGet 5]\<rparr>"
  have quota: "processed_count ?s < PROCESS_THRESHOLD"
    by (simp add: init_def PROCESS_THRESHOLD_def)
  have pre: "for_images example_pylib [(example_image 5 [98], example_env\<lparr>download := DownloadFails\<rparr>)]
        (emit (ApiGet 3) (init\<lparr>processed_count := 99, skipped_count := 7\<rparr>))
     = (Next, ?s)"
    by (simp add: item_step_def recent_post_def process_image_def check_limits_def init_def
        emit_def PROCESS_THRESHOLD_def)
  have step: "item_step example_pylib (example_image 1 [97], example_env) ?s
     = (Inserted, Break,
        init\<lparr>recent_users := (recent_users init)(PStr [97] \<mapsto> 0),
             previous_images := [example_data 1 (PStr [97])],
             processed_ids := {1},
             existing_entries_set := {([[97]], PStr [104, 101, 108, 108, 111])},
             effects := [ApiGet 3, HttpGet 5, HttpGet 1, DriverGet 1, DbQuery, DbInsert,
                         Sleep PAUSE_DURATION]\<rparr>)"
    by (subst example_step [OF _ _ convert_a])
       (simp_all add: recent_post_def example_env_def handle_candidate_def is_duplicate_def
          is_similar_entry_def record_insert_def insert_into_db_def trim_history_def
          check_limits_def init_def emit_def PROCESS_THRESHOLD_def IMAGES_TO_PROCESS_def)
  note T = quota_cycle [OF step quota]
  from T have zero: "consecutive_duplicate_count
        (init\<lparr>recent_users := (recent_users init)(PStr [97] \<mapsto> 0),
             previous_images := [example_data 1 (PStr [97])],
             processed_ids := {1},
             existing_entries_set := {([[97]], PStr [104, 101, 108, 108, 111])},
             effects := [ApiGet 3, HttpGet 5, HttpGet 1, DriverGet 1, DbQuery, DbInsert,
                         Sleep PAUSE_DURATION]\<rparr>)
       = 0"
    by blast
  from T pre have "process_images_from example_pylib 3
        [Items ([(example_image 5 [98], example_env\<lparr>download := DownloadFails\<rparr>)]
                @ (example_image 1 [97], example_env) # [(example_image 2 [98], example_env)])]
        (init\<lparr>processed_count := 99, skipped_count := 7\<rparr>)
     = Running 1
        (emit SleepRemainder
          (init\<lparr>recent_users := (recent_users init)(PStr [97] \<mapsto> 0),
             previous_images := [example_data 1 (PStr [97])],
             processed_ids := {1},
             existing_entries_set := {([[97]], PStr [104, 101, 108, 108, 111])},
             effects := [ApiGet 3, HttpGet 5, HttpGet 1, DriverGet 1, DbQuery, DbInsert,
                         Sleep PAUSE_DURATION]\<rparr>))"
    by blast
  with zero quota pre step show ?thesis by blast
qed

section \<open>Exhausted reinitialisation\<close>

text \<open>C5, at the failing input. The session crashes during the extraction attempt
  of an item, the three launches that follow all fail, and \<^verbatim>\<open>initialize_driver\<close>
  raises to give up. The exception leaves the extractor, but \<^verbatim>\<open>process_image\<close>
  catches it with everything else: the item ends without candidate, the loop goes on
  and the run is not aborted. At start-up the same three failed launches do abort
  the run.\<close>

theorem reinit_exhaustion_swallowed:
  "fst (initialize_driver 3 (emit DriverQuit (emit (DriverGet 1) (emit (HttpGet 1) init))))
     = Inl WebDriverException
   \<and> item_step example_pylib (example_image 1 [97], example_env\<lparr>render := crashed_session\<rparr>) init
     = (NoCandidate, Next,
        init\<lparr>effects := [HttpGet 1, DriverGet 1, DriverQuit, DriverLaunch, Sleep RETRY_DELAY,
               DriverLaunch, Sleep RETRY_DELAY, DriverLaunch, Sleep RETRY_DELAY]\<rparr>)
   \<and> main example_pylib \<lparr>launch_failures = 0, connect_ok = True, stored_entries = []\<rparr>
        [Items [(example_image 1 [97], example_env\<lparr>render := crashed_session\<rparr>)]]
     = Ran (Running 1
        (init\<lparr>effects := [DriverLaunch, ApiGet 1, HttpGet 1, DriverGet 1, DriverQuit,
               DriverLaunch, Sleep RETRY_DELAY, DriverLaunch, Sleep RETRY_DELAY, DriverLaunch,
               Sleep RETRY_DELAY, SleepRemainder]\<rparr>))
   \<and> main example_pylib \<lparr>launch_failures = 3, connect_ok = True, stored_entries = []\<rparr>
        [Items [(example_image 1 [97], example_env)]]
     = Aborted WebDriverException"
proof -
  have launch: "initialize_driver 3 s
      = (Inl WebDriverException,
         s\<lparr>effects := effects s @ [DriverLaunch, Sleep RETRY_DELAY, DriverLaunch, Sleep RETRY_DELAY,
               DriverLaunch, Sleep RETRY_DELAY]\<rparr>)" for s
    unfolding initialize_driver_def
    apply (subst initialize_driver_from.simps)
    apply (subst initialize_driver_from.simps)
    apply (subst initialize_driver_from.simps)
    apply (subst initialize_driver_from.simps)
    apply (simp add: MAX_DRIVER_RETRIES_def emit_def)
    done
  have extr: "extract_image_details (example_image 1 [97]) crashed_session s
      = (Inl WebDriverException,
         s\<lparr>effects := effects s @ [DriverGet 1, DriverQuit, DriverLaunch, Sleep RETRY_DELAY,
               DriverLaunch, Sleep RETRY_DELAY, DriverLaunch, Sleep RETRY_DELAY]\<rparr>)" for s
    by (simp add: extract_image_details_def extract_image_details_from.simps [of 0]
        MAX_RETRIES_def crashed_session_def launch Let_def emit_def)
  have item: "process_image example_pylib (example_image 1 [97])
        (example_env\<lparr>render := crashed_session\<rparr>) s
     = (None, s\<lparr>effects := effects s @ [HttpGet 1, DriverGet 1, DriverQuit, DriverLaunch,
               Sleep RETRY_DELAY, DriverLaunch, Sleep RETRY_DELAY, DriverLaunch,
               Sleep RETRY_DELAY]\<rparr>)" for s
    by (simp add: process_image_def extract_exif_user_comment_def decode_hello extr
        example_env_def Let_def del: decode_user_comment.simps)
       (simp add: emit_def)
  have step: "\<not> recent_post (example_image 1 [97]) env s \<Longrightarrow> 1 \<notin> processed_ids s
      \<Longrightarrow> processed_count s < PROCESS_THRESHOLD \<Longrightarrow> consecutive_duplicate_count s < 10
      \<Longrightarrow> env = example_env\<lparr>render := crashed_session\<rparr>
      \<Longrightarrow> item_step example_pylib (example_image 1 [97], env) s
     = (NoCandidate, Next,
        s\<lparr>effects := effects s @ [HttpGet 1, DriverGet 1, DriverQuit, DriverLaunch,
               Sleep RETRY_DELAY, DriverLaunch, Sleep RETRY_DELAY, DriverLaunch,
               Sleep RETRY_DELAY]\<rparr>)" for s env
    by (simp add: item_step_def item check_limits_def)
  have enter: "enter \<lparr>launch_failures = 0, connect_ok = True, stored_entries = []\<rparr> init
      = Inr (init\<lparr>effects := [DriverLaunch]\<rparr>)"
    unfolding enter_def initialize_driver_def
    by (subst initialize_driver_from.simps) (simp add: MAX_DRIVER_RETRIES_def emit_def init_def)
  have c1: "fst (initialize_driver 3 (emit DriverQuit (emit (DriverGet 1) (emit (HttpGet 1) init))))
     = Inl WebDriverException"
    by (simp add: launch)
  have c2: "item_step example_pylib (example_image 1 [97], example_env\<lparr>render := crashed_session\<rparr>) init
     = (NoCandidate, Next,
        init\<lparr>effects := [HttpGet 1, DriverGet 1, DriverQuit, DriverLaunch, Sleep RETRY_DELAY,
               DriverLaunch, Sleep RETRY_DELAY, DriverLaunch, Sleep RETRY_DELAY]\<rparr>)"
    by (subst step) (simp_all add: recent_post_def init_def PROCESS_THRESHOLD_def)
  have c3: "main example_pylib \<lparr>launch_failures = 0, connect_ok = True, stored_entries = []\<rparr>
        [Items [(example_image 1 [97], example_env\<lparr>render := crashed_session\<rparr>)]]
     = Ran (Running 1
        (init\<lparr>effects := [DriverLaunch, ApiGet 1, HttpGet 1, DriverGet 1, DriverQuit,
               DriverLaunch, Sleep RETRY_DELAY, DriverLaunch, Sleep RETRY_DELAY, DriverLaunch,
               Sleep RETRY_DELAY, SleepRemainder]\<rparr>))"
    unfolding main_def process_images_def
    apply (simp add: enter Let_def)
    apply (subst step)
    apply (simp_all add: recent_post_def init_def PROCESS_THRESHOLD_def emit_def)
    done
  have c4: "main example_pylib \<lparr>launch_failures = 3, connect_ok = True, stored_entries = []\<rparr>
        [Items [(example_image 1 [97], example_env)]]
     = Aborted WebDriverException"
    by (simp add: main_def enter_def launch)
  from c1 c2 c3 c4 show ?thesis by blast
qed

section \<open>The pre-filters\<close>

text \<open>The two pre-filters, on the state they read: when \<^verbatim>\<open>recent_users\<close> holds, under
  the item's username, a stamp less than the time threshold old, or when the item's
  id is in \<^verbatim>\<open>processed_ids\<close>, the pass adds one to the skipped counter and does
  nothing else: no download, no navigation, no query.\<close>

lemma prefilter_skip:
  assumes "recent_post img env s \<or> img_id img \<in> processed_ids s"
  shows "snd (item_step py (img, env) s) = (Next, s\<lparr>skipped_count := skipped_count s + 1\<rparr>)
       \<and> fst (item_step py (img, env) s) = (if recent_post img env s then SkipRecent else SkipProcessed)
       \<and> effects (snd (snd (item_step py (img, env) s))) = effects s"
  using assms by (auto simp: item_step_def)

text \<open>C6, at the failing input. The user is called \<^verbatim>\<open>7\<close>. The first item is inserted
  at time 0; its stamp goes into \<^verbatim>\<open>recent_users\<close> under the username of the formatted
  record, which \<^verbatim>\<open>convert_numeric_fields\<close> has turned into the integer 7. The second
  item, offered at time 0 as well, is looked up under the string \<^verbatim>\<open>'7'\<close>, finds no
  stamp, and is downloaded and rendered. For the user \<^verbatim>\<open>a\<close> the same two items end
  with the second skipped before any download.\<close>

theorem recency_numeric_username:
  "for_images example_pylib
      [(example_image 1 [55], example_env), (example_image 2 [55], example_env)] init
     = (Next,
        init\<lparr>processed_count := 1, skipped_count := 1, consecutive_duplicate_count := 1,
             recent_users := (recent_users init)(PInt 7 \<mapsto> 0),
             previous_images := [example_data 1 (PInt 7)],
             processed_ids := {1},
             existing_entries_set := {([[97]], PStr [104, 101, 108, 108, 111])},
             effects := [HttpGet 1, DriverGet 1, DbQuery, DbInsert,
                         HttpGet 2, DriverGet 2, DbQuery]\<rparr>)
   \<and> for_images example_pylib
      [(example_image 1 [97], example_env), (example_image 2 [97], example_env)] init
     = (Next,
        init\<lparr>processed_count := 1, skipped_count := 1,
             recent_users := (recent_users init)(PStr [97] \<mapsto> 0),
             previous_images := [example_data 1 (PStr [97])],
             processed_ids := {1},
             existing_entries_set := {([[97]], PStr [104, 101, 108, 108, 111])},
             effects := [HttpGet 1, DriverGet 1, DbQuery, DbInsert]\<rparr>)"
proof -
  have first: "convert_numeric example_pylib (PStr u) = Inr v \<Longrightarrow>
    item_step example_pylib (example_image 1 u, example_env) init
     = (Inserted, Next,
        init\<lparr>processed_count := 1,
             recent_users := (recent_users init)(v \<mapsto> 0),
             previous_images := [example_data 1 v],
             processed_ids := {1},
             existing_entries_set := {([[97]], PStr [104, 101, 108, 108, 111])},
             effects := [HttpGet 1, DriverGet 1, DbQuery, DbInsert]\<rparr>)" for u v
    by (subst example_step [where v = v])
       (simp_all add: recent_post_def example_env_def handle_candidate_def is_duplicate_def
          is_similar_entry_def record_insert_def insert_into_db_def trim_history_def
          check_limits_def init_def emit_def PROCESS_THRESHOLD_def IMAGES_TO_PROCESS_def
          example_data_def)
  have second7: "item_step example_pylib (example_image 2 [55], example_env)
        (init\<lparr>processed_count := 1,
             recent_users := (recent_users init)(PInt 7 \<mapsto> 0),
             previous_images := [example_data 1 (PInt 7)],
             processed_ids := {1},
             existing_entries_set := {([[97]], PStr [104, 101, 108, 108, 111])},
             effects := [HttpGet 1, DriverGet 1, DbQuery, DbInsert]\<rparr>)
     = (SkipSimilar, Next,
        init\<lparr>processed_count := 1, skipped_count := 1, consecutive_duplicate_count := 1,
             recent_users := (recent_users init)(PInt 7 \<mapsto> 0),
             previous_images := [example_data 1 (PInt 7)],
             processed_ids := {1},
             existing_entries_set := {([[97]], PStr [104, 101, 108, 108, 111])},
             effects := [HttpGet 1, DriverGet 1, DbQuery, DbInsert,
                         HttpGet 2, DriverGet 2, DbQuery]\<rparr>)"
    by (subst example_step [OF _ _ convert_7])
       (simp_all add: recent_post_def example_env_def handle_candidate_def is_duplicate_def
          is_similar_entry_def count_duplicate_def trim_history_def
          check_limits_def init_def emit_def PROCESS_THRESHOLD_def IMAGES_TO_PROCESS_def
          example_data_def)
  have seconda: "item_step example_pylib (example_image 2 [97], example_env)
        (init\<lparr>processed_count := 1,
             recent_users := (recent_users init)(PStr [97] \<mapsto> 0),
             previous_images := [example_data 1 (PStr [97])],
             processed_ids := {1},
             existing_entries_set := {([[97]], PStr [104, 101, 108, 108, 111])},
             effects := [HttpGet 1, DriverGet 1, DbQuery, DbInsert]\<rparr>)
     = (SkipRecent, Next,
        init\<lparr>processed_count := 1, skipped_count := 1,
             recent_users := (recent_users init)(PStr [97] \<mapsto> 0),
             previous_images := [example_data 1 (PStr [97])],
             processed_ids := {1},
             existing_entries_set := {([[97]], PStr [104, 101, 108, 108, 111])},
             effects := [HttpGet 1, DriverGet 1, DbQuery, DbInsert]\<rparr>)"
    by (simp add: item_step_def recent_post_def example_env_def init_def TIME_THRESHOLD_def)
  have two: "item_step py x1 s = (d1, Next, s1) \<Longrightarrow> item_step py x2 s1 = (d2, Next, s2)
      \<Longrightarrow> for_images py [x1, x2] s = (Next, s2)" for py x1 x2 s s1 s2 d1 d2
    by simp
  from two [OF first [OF convert_7] second7] two [OF first [OF convert_a] seconda]
  show ?thesis by (rule conjI)
qed

section \<open>The decoding policy\<close>

text \<open>C7, as stated, fails. The value \<^verbatim>\<open>b'UNICODEA'\<close> begins with the seven bytes the
  code tests for; the code drops eight bytes and returns the empty string, where
  dropping the marker gives \<^verbatim>\<open>A\<close>, and, should the marker be the eight bytes
  \<^verbatim>\<open>UNICODE\0\<close>, dropping nothing gives four decoded characters. And for
  \<^verbatim>\<open>b'UNICODE\0\xff'\<close>, which no decoding accepts, the code coerces the bytes that are
  left after the strip, not the raw value.\<close>

theorem decode_policy_counterexample:
  "decode_user_comment (ExifBytes [0x55, 0x4E, 0x49, 0x43, 0x4F, 0x44, 0x45, 0x41]) = []
   \<and> decode_user_comment_spec [0x55, 0x4E, 0x49, 0x43, 0x4F, 0x44, 0x45]
        (ExifBytes [0x55, 0x4E, 0x49, 0x43, 0x4F, 0x44, 0x45, 0x41]) = [65]
   \<and> decode_user_comment_spec [0x55, 0x4E, 0x49, 0x43, 0x4F, 0x44, 0x45, 0]
        (ExifBytes [0x55, 0x4E, 0x49, 0x43, 0x4F, 0x44, 0x45, 0x41])
       = [21838, 18755, 20292, 17729]
   \<and> decode_user_comment (ExifBytes [0x55, 0x4E, 0x49, 0x43, 0x4F, 0x44, 0x45, 0, 0xFF])
       = [98, 39, 92, 120, 102, 102, 39]
   \<and> decode_user_comment_spec [0x55, 0x4E, 0x49, 0x43, 0x4F, 0x44, 0x45, 0]
        (ExifBytes [0x55, 0x4E, 0x49, 0x43, 0x4F, 0x44, 0x45, 0, 0xFF])
       = [98, 39, 85, 78, 73, 67, 79, 68, 69, 92, 120, 48, 48, 92, 120, 102, 102, 39]"
  by (simp add: decode_user_comment_spec_def startswith_def unicode_marker_def replace_nul_def
      bytes_repr_def repr_byte_def hexdigit_def is_cont_def)

text \<open>C7, amended. A byte string that begins with the seven bytes \<^verbatim>\<open>UNICODE\<close> loses
  its first eight bytes, the marker and the byte after it. The bytes that are left are
  decoded as UTF-16-BE, then UTF-8, then ASCII, and the first decoding that succeeds
  is returned with its null characters removed; the ASCII attempt never decides,
  since what UTF-8 rejects ASCII rejects. When every decoding fails the result is
  the string coercion of the bytes that are left, and a value that is not a byte
  string is coerced as it is.\<close>

theorem decode_user_comment_policy:
  "decode_user_comment (ExifBytes b)
     = (let v = (if take 7 b = [0x55, 0x4E, 0x49, 0x43, 0x4F, 0x44, 0x45] then drop 8 b else b) in
        case bytes_decode UTF_16_BE v of
          Some s \<Rightarrow> replace_nul s
        | None \<Rightarrow>
            (case bytes_decode UTF_8 v of
               Some s \<Rightarrow> replace_nul s
             | None \<Rightarrow>
                 (case bytes_decode ASCII v of
                    Some s \<Rightarrow> replace_nul s
                  | None \<Rightarrow> py_str (ExifBytes v))))
   \<and> decode_user_comment (ExifBytes b)
     = (let v = (if take 7 b = [0x55, 0x4E, 0x49, 0x43, 0x4F, 0x44, 0x45] then drop 8 b else b) in
        case bytes_decode UTF_16_BE v of
          Some s \<Rightarrow> replace_nul s
        | None \<Rightarrow>
            (case bytes_decode UTF_8 v of
               Some s \<Rightarrow> replace_nul s
             | None \<Rightarrow> bytes_repr v))
   \<and> 0 \<notin> set (replace_nul s)
   \<and> decode_user_comment (ExifStr t) = t
   \<and> decode_user_comment (ExifOther t) = t"
proof -
  let ?v = "if take 7 b = [0x55, 0x4E, 0x49, 0x43, 0x4F, 0x44, 0x45] then drop 8 b else b"
  have marker: "startswith b unicode_marker
      = (take 7 b = [0x55, 0x4E, 0x49, 0x43, 0x4F, 0x44, 0x45])"
    by (simp add: startswith_def unicode_marker_def eval_nat_numeral)
  have chain: "decode_user_comment (ExifBytes b)
     = (case try_decodings [UTF_16_BE, UTF_8, ASCII] ?v of
          Some s \<Rightarrow> s | None \<Rightarrow> py_str (ExifBytes ?v))"
    by (simp add: marker Let_def del: try_decodings.simps py_str.simps)
  have three: "(case try_decodings [UTF_16_BE, UTF_8, ASCII] v of
          Some s \<Rightarrow> s | None \<Rightarrow> py_str (ExifBytes v))
     = (case bytes_decode UTF_16_BE v of
          Some s \<Rightarrow> replace_nul s
        | None \<Rightarrow>
            (case bytes_decode UTF_8 v of
               Some s \<Rightarrow> replace_nul s
             | None \<Rightarrow>
                 (case bytes_decode ASCII v of
                    Some s \<Rightarrow> replace_nul s
                  | None \<Rightarrow> py_str (ExifBytes v))))" for v
    by (simp del: bytes_decode.simps py_str.simps split: option.splits)
  have two: "(case bytes_decode UTF_8 v of
               Some s \<Rightarrow> replace_nul s
             | None \<Rightarrow>
                 (case bytes_decode ASCII v of
                    Some s \<Rightarrow> replace_nul s
                  | None \<Rightarrow> py_str (ExifBytes v)))
     = (case bytes_decode UTF_8 v of
               Some s \<Rightarrow> replace_nul s
             | None \<Rightarrow> bytes_repr v)" for v
    using ascii_needs_utf8 [of v]
    by (cases "bytes_decode UTF_8 v") (simp_all del: bytes_decode.simps)
  have nul: "0 \<notin> set (replace_nul s)" by (simp add: replace_nul_def)
  have A: "decode_user_comment (ExifBytes b)
     = (case bytes_decode UTF_16_BE ?v of
          Some s \<Rightarrow> replace_nul s
        | None \<Rightarrow>
            (case bytes_decode UTF_8 ?v of
               Some s \<Rightarrow> replace_nul s
             | None \<Rightarrow>
                 (case bytes_decode ASCII ?v of
                    Some s \<Rightarrow> replace_nul s
                  | None \<Rightarrow> py_str (ExifBytes ?v))))"
    unfolding chain three ..
  have B: "decode_user_comment (ExifBytes b)
     = (case bytes_decode UTF_16_BE ?v of
          Some s \<Rightarrow> replace_nul s
        | None \<Rightarrow>
            (case bytes_decode UTF_8 ?v of
               Some s \<Rightarrow> replace_nul s
             | None \<Rightarrow> bytes_repr ?v))"
    unfolding A two ..
  have C: "decode_user_comment (ExifStr t) = t" "decode_user_comment (ExifOther t) = t"
    by simp_all
  show ?thesis unfolding Let_def by (intro conjI A B nul C)
qed

section \<open>The history buffer\<close>

text \<open>C8. Started within the capacity, the history buffer is within the capacity
  after every pass through the loop body and at every point of a run. Only an insert
  changes it: the new record goes to the end, and when the buffer was full its first
  entry, the one appended longest ago, is the one dropped.\<close>

theorem history_bound:
  assumes bound: "length (previous_images s) \<le> IMAGES_TO_PROCESS"
    and step: "item_step py x s = (d, c, s')"
  shows "length (previous_images s') \<le> IMAGES_TO_PROCESS
       \<and> (d \<noteq> Inserted \<longrightarrow> previous_images s' = previous_images s)
       \<and> (d = Inserted \<longrightarrow>
            (\<exists>cand s1. process_image py (fst x) (snd x) s = (Some cand, s1)
               \<and> previous_images s'
                   = (if length (previous_images s) = IMAGES_TO_PROCESS
                      then tl (previous_images s) else previous_images s) @ [cand]))
       \<and> (\<forall>page rs. length (previous_images (run_state (process_images_from py page rs s)))
              \<le> IMAGES_TO_PROCESS)"
  using item_step_history_bound [OF step bound] item_step_history [OF step bound]
    process_images_from_history_bound [OF bound, of py]
  by blast

theorem history_bound_witness:
  "length (previous_images
      (init\<lparr>previous_images :=
         example_data 0 (PStr [97]) # replicate 49 (example_data 9 (PStr [97]))\<rparr>))
     \<le> IMAGES_TO_PROCESS
   \<and> item_step example_pylib (example_image 1 [97], example_env)
       (init\<lparr>previous_images :=
          example_data 0 (PStr [97]) # replicate 49 (example_data 9 (PStr [97]))\<rparr>)
     = (Inserted, Next,
        init\<lparr>processed_count := 1,
             recent_users := (recent_users init)(PStr [97] \<mapsto> 0),
             previous_images :=
               replicate 49 (example_data 9 (PStr [97])) @ [example_data 1 (PStr [97])],
             processed_ids := {1},
             existing_entries_set := {([[97]], PStr [104, 101, 108, 108, 111])},
             effects := [HttpGet 1, DriverGet 1, DbQuery, DbInsert]\<rparr>)
   \<and> length (previous_images
        (init\<lparr>processed_count := 1,
             recent_users := (recent_users init)(PStr [97] \<mapsto> 0),
             previous_images :=
               replicate 49 (example_data 9 (PStr [97])) @ [example_data 1 (PStr [97])],
             processed_ids := {1},
             existing_entries_set := {([[97]], PStr [104, 101, 108, 108, 111])},
             effects := [HttpGet 1, DriverGet 1, DbQuery, DbInsert]\<rparr>))
     \<le> IMAGES_TO_PROCESS"
proof -
  have bound: "length (previous_images
      (init\<lparr>previous_images :=
         example_data 0 (PStr [97]) # replicate 49 (example_data 9 (PStr [97]))\<rparr>))
     \<le> IMAGES_TO_PROCESS"
    by (simp add: IMAGES_TO_PROCESS_def)
  have step: "item_step example_pylib (example_image 1 [97], example_env)
       (init\<lparr>previous_images :=
          example_data 0 (PStr [97]) # replicate 49 (example_data 9 (PStr [97]))\<rparr>)
     = (Inserted, Next,
        init\<lparr>processed_count := 1,
             recent_users := (recent_users init)(PStr [97] \<mapsto> 0),
             previous_images :=
               replicate 49 (example_data 9 (PStr [97])) @ [example_data 1 (PStr [97])],
             processed_ids := {1},
             existing_entries_set := {([[97]], PStr [104, 101, 108, 108, 111])},
             effects := [HttpGet 1, DriverGet 1, DbQuery, DbInsert]\<rparr>)"
    by (subst example_step [OF _ _ convert_a])
       (simp_all add: recent_post_def example_env_def handle_candidate_def is_duplicate_def
          is_similar_entry_def record_insert_def insert_into_db_def trim_history_def
          check_limits_def init_def emit_def PROCESS_THRESHOLD_def IMAGES_TO_PROCESS_def)
  from history_bound [OF bound step] bound step show ?thesis by simp
qed

section \<open>The history buffer decides nothing\<close>

text \<open>C9. Nothing in the loop reads the history buffer except to trim it; the
  fuzzy-similarity test \<^verbatim>\<open>is_similar\<close> is not among the functions the loop calls.
  Replace the buffer of a session state by any other: every item takes the same
  branch (skipped by a pre-filter, no candidate, store duplicate, in-memory
  duplicate, insert), the loop body ends the same way, and the two states after the
  pass differ in the buffer at most; the same holds for whole runs.\<close>

theorem history_noninterference:
  "fst (item_step py x (s\<lparr>previous_images := h\<rparr>)) = fst (item_step py x s)
   \<and> fst (snd (item_step py x (s\<lparr>previous_images := h\<rparr>))) = fst (snd (item_step py x s))
   \<and> forget_history (snd (snd (item_step py x (s\<lparr>previous_images := h\<rparr>))))
       = forget_history (snd (snd (item_step py x s)))
   \<and> forget_run (process_images_from py page rs (s\<lparr>previous_images := h\<rparr>))
       = forget_run (process_images_from py page rs s)"
  using item_step_forget [OF forget_history_update [where s = s and h = h], of py x]
    process_images_from_forget [OF forget_history_update [where s = s and h = h], of py page rs]
  by simp

section \<open>The skipped counter\<close>



end
